theory Spec2Isabelle
  imports Main "HOL-Library.Multiset"
begin

section \<open>Python values used by \<open>data/preparations.py\<close>\<close>

text \<open>
  Exceptions of the script are values: every \<open>raise\<close> of the source (or of a library
  call the source makes) is an \<open>Inl\<close> branch of the model.
\<close>

datatype py_error =
  KeyError | ValueError | IndexError | TypeError | AttributeError | RuntimeError
  | UnpicklingError | FileNotFoundError

text \<open>
  A Python \<open>dict\<close> keeps its keys in insertion order and holds each key once. It is
  an association list: \<open>d[k] = v\<close> overwrites the value in place when \<open>k\<close> is present and
  appends the pair otherwise; \<open>del d[k]\<close> and \<open>d[k]\<close> raise \<open>KeyError\<close> on a missing key.
\<close>

type_synonym ('k, 'v) pydict = "('k \<times> 'v) list"

definition keys :: "('k, 'v) pydict \<Rightarrow> 'k list" where
  "keys d = map fst d"

definition dict_get :: "('k, 'v) pydict \<Rightarrow> 'k \<Rightarrow> py_error + 'v" where
  "dict_get d k = (case map_of d k of None \<Rightarrow> Inl KeyError | Some v \<Rightarrow> Inr v)"

definition dict_set :: "('k, 'v) pydict \<Rightarrow> 'k \<Rightarrow> 'v \<Rightarrow> ('k, 'v) pydict" where
  "dict_set d k v =
     (if k \<in> set (keys d) then map (\<lambda>(k', v'). if k' = k then (k', v) else (k', v')) d
      else d @ [(k, v)])"

definition dict_del :: "('k, 'v) pydict \<Rightarrow> 'k \<Rightarrow> py_error + ('k, 'v) pydict" where
  "dict_del d k =
     (if k \<in> set (keys d) then Inr (filter (\<lambda>(k', v'). k' \<noteq> k) d) else Inl KeyError)"

section \<open>The legacy key pattern\<close>

text \<open>
  The source compiles
  \<^verbatim>\<open>^(.*denselayer\d+\.(?:norm|relu|conv))\.((?:[12])\.(?:weight|bias|running_mean|running_var))$\<close>
  and calls \<open>pattern.match(key)\<close>. The fragment of regular expressions it uses is
  embedded with the backtracking semantics of Python's \<open>re\<close>: \<open>rx_match r s\<close> lists, in
  the order the engine tries them, the remainders of \<open>s\<close> after each way \<open>r\<close> can
  consume a prefix of \<open>s\<close>. Keys are strings over code points below 256, where the only
  characters matched by \<open>\d\<close> are \<open>0\<close> to \<open>9\<close>. Without flags \<open>.\<close> matches anything but
  a line feed, and \<open>$\<close> matches at the end of the string and before a line feed that ends
  the string.
\<close>

datatype cls = Dot | Digit | OneOf string

fun cls_ok :: "cls \<Rightarrow> char \<Rightarrow> bool" where
  "cls_ok Dot c = (c \<noteq> CHR 0x0A)"
| "cls_ok Digit c = (c \<in> set ''0123456789'')"
| "cls_ok (OneOf cs) c = (c \<in> set cs)"

datatype rx = Lit string | One cls | Star cls | Plus cls | Seq rx rx | Alt rx rx | Eos

definition starts_with :: "string \<Rightarrow> string \<Rightarrow> bool" where
  "starts_with s l = (take (length l) s = l)"

fun rx_match :: "rx \<Rightarrow> string \<Rightarrow> string list" where
  "rx_match (Lit l) s = (if starts_with s l then [drop (length l) s] else [])"
| "rx_match (One c) s = (case s of [] \<Rightarrow> [] | x # xs \<Rightarrow> if cls_ok c x then [xs] else [])"
| "rx_match (Star c) s =
     map (\<lambda>k. drop k s) (rev [0 ..< Suc (length (takeWhile (cls_ok c) s))])"
| "rx_match (Plus c) s =
     map (\<lambda>k. drop k s) (rev [1 ..< Suc (length (takeWhile (cls_ok c) s))])"
| "rx_match (Seq a b) s = concat (map (rx_match b) (rx_match a s))"
| "rx_match (Alt a b) s = rx_match a s @ rx_match b s"
| "rx_match Eos s = (if s = [] \<or> s = [CHR 0x0A] then [s] else [])"

definition group1 :: rx where
  "group1 = Seq (Star Dot) (Seq (Lit ''denselayer'') (Seq (Plus Digit) (Seq (Lit ''.'')
     (Alt (Lit ''norm'') (Alt (Lit ''relu'') (Lit ''conv''))))))"

definition group2 :: rx where
  "group2 = Seq (One (OneOf ''12'')) (Seq (Lit ''.'')
     (Alt (Lit ''weight'') (Alt (Lit ''bias'') (Alt (Lit ''running_mean'') (Lit ''running_var'')))))"

text \<open>
  The whole pattern is \<open>^(group1)\.(group2)$\<close>. \<open>match_paths key\<close> lists the successful
  paths of the engine from the start of \<open>key\<close>, each as the pair of the texts captured by
  the two groups; \<open>pattern_match key\<close> is \<open>pattern.match(key)\<close>: \<open>None\<close> when there is no
  match, and \<open>(match.group(1), match.group(2))\<close> of the first successful path otherwise.
\<close>

definition match_paths :: "string \<Rightarrow> (string \<times> string) list" where
  "match_paths key =
     concat (map (\<lambda>r1. concat (map (\<lambda>r2. concat (map (\<lambda>r3. map (\<lambda>r4.
         (take (length key - length r1) key, take (length r2 - length r3) r2))
       (rx_match Eos r3)) (rx_match group2 r2))) (rx_match (Lit ''.'') r1)))
     (rx_match group1 key))"

definition pattern_match :: "string \<Rightarrow> (string \<times> string) option" where
  "pattern_match key = (case match_paths key of [] \<Rightarrow> None | g # _ \<Rightarrow> Some g)"

section \<open>The checkpoint key remapping\<close>

text \<open>
  The body of the loop over \<open>list(state_dict.keys())\<close>, with the flag
  \<open>remove_data_parallel\<close> (the source sets it to \<open>True\<close>) as a parameter.
\<close>

definition new_key :: "bool \<Rightarrow> string \<Rightarrow> string" where
  "new_key remove_data_parallel key =
     (let match = pattern_match key;
          new_key = (case match of Some (g1, g2) \<Rightarrow> g1 @ g2 | None \<Rightarrow> key);
          new_key = (if remove_data_parallel then drop 7 new_key else new_key)
      in new_key)"

definition matched :: "(string \<times> string) option \<Rightarrow> bool" where
  \<comment> \<open>the truth value of a match object: \<open>None\<close> is false, a match is true\<close>
  "matched m = (case m of None \<Rightarrow> False | Some g \<Rightarrow> True)"

definition remap_step :: "bool \<Rightarrow> string \<Rightarrow> (string, 'v) pydict \<Rightarrow> py_error + (string, 'v) pydict" where
  "remap_step remove_data_parallel key state_dict =
     (case dict_get state_dict key of
        Inl e \<Rightarrow> Inl e
      | Inr v \<Rightarrow>
          let state_dict = dict_set state_dict (new_key remove_data_parallel key) v in
          if matched (pattern_match key) \<or> remove_data_parallel then dict_del state_dict key
          else Inr state_dict)"

fun remap_loop :: "bool \<Rightarrow> string list \<Rightarrow> (string, 'v) pydict \<Rightarrow> py_error + (string, 'v) pydict" where
  "remap_loop rdp [] state_dict = Inr state_dict"
| "remap_loop rdp (key # ks) state_dict =
     (case remap_step rdp key state_dict of
        Inl e \<Rightarrow> Inl e
      | Inr state_dict' \<Rightarrow> remap_loop rdp ks state_dict')"

definition remap :: "(string, 'v) pydict \<Rightarrow> py_error + (string, 'v) pydict" where
  "remap state_dict = remap_loop True (keys state_dict) state_dict"

text \<open>
  The mapping the loop is meant to build, written as the comprehension
  \<open>{transform(k): v for k, v in state_dict.items()}\<close> over the same dictionary model: a
  later pair overwrites an earlier one with the same transformed name.
\<close>

definition dict_comprehension :: "(string, 'v) pydict \<Rightarrow> (string, 'v) pydict" where
  "dict_comprehension sd = foldl (\<lambda>d (k, v). dict_set d (new_key True k) v) [] sd"

text \<open>
  A snapshot of keys is safe for the in-place loop when no key's transformed name is that
  key itself or a key the loop has still to visit.
\<close>

fun snapshot_safe :: "string list \<Rightarrow> bool" where
  "snapshot_safe [] = True"
| "snapshot_safe (k # ks) = (new_key True k \<notin> set (k # ks) \<and> snapshot_safe ks)"

section \<open>JSON records and \<open>create_jsonl_data\<close>\<close>

text \<open>
  The values that reach \<open>create_jsonl_data\<close> come from \<open>json.loads\<close> of a table rendered
  by \<open>DataFrame.to_json\<close>: null, booleans, numbers and strings. A float is kept as its
  significand and binary exponent; no operation of the script computes with it.
\<close>

datatype json = JNull | JBool bool | JInt int | JFloat int int | JStr string

text \<open>
  \<^verbatim>\<open>
  def create_jsonl_data(data_dir, jsonl_filename, json_dict):
      with open(os.path.join(data_dir, jsonl_filename), "w") as fw:
          data_obj = {}
          for idx, data_dict in json_dict.items():
              data_obj['id'] = idx
              for key, value in data_dict.items():
                  data_obj[key] = value
              fw.write("%s\n" % json.dumps(data_obj))
  \<close>
  \<open>fill_obj\<close> is the body of the outer loop up to the write; \<open>write_rows\<close> is the outer
  loop, threading the one \<open>data_obj\<close> through every row and collecting the object written
  at each row; a line of the file is \<open>json.dumps\<close> of that object. The file itself is
  written into the store of output files where the script calls the function.
\<close>

definition fill_obj ::
  "(string, json) pydict \<Rightarrow> string \<times> (string, json) pydict \<Rightarrow> (string, json) pydict" where
  "fill_obj data_obj row =
     (case row of (idx, data_dict) \<Rightarrow>
        foldl (\<lambda>obj (key, value). dict_set obj key value)
              (dict_set data_obj ''id'' (JStr idx)) data_dict)"

fun write_rows ::
  "(string, json) pydict \<Rightarrow> (string, (string, json) pydict) pydict \<Rightarrow> (string, json) pydict list" where
  "write_rows data_obj [] = []"
| "write_rows data_obj (row # rest) =
     (let data_obj = fill_obj data_obj row in data_obj # write_rows data_obj rest)"

definition create_jsonl_data ::
  "(string, (string, json) pydict) pydict \<Rightarrow> (string, json) pydict list" where
  "create_jsonl_data json_dict = write_rows [] json_dict"

section \<open>Tables and the train/validation/test split\<close>

text \<open>
  A \<open>DataFrame\<close> is its column names and its rows, each row with its index label. A cell
  is kept as the JSON value \<open>to_json\<close> renders it to. \<open>pd.read_csv\<close> without an index
  column labels the rows \<open>0, 1, ...\<close> in file order; the script then renames three columns.
\<close>

record frame =
  columns :: "string list"
  rows :: "(nat \<times> json list) list"

definition rename_column :: "string \<Rightarrow> string" where
  "rename_column c =
     (if c = ''Filename'' then ''img''
      else if c = ''Label'' then ''label''
      else if c = ''LabelText'' then ''text''
      else c)"

definition load_table :: "string list \<Rightarrow> json list list \<Rightarrow> frame" where
  "load_table header body =
     \<lparr>columns = map rename_column header, rows = zip [0 ..< length body] body\<rparr>"

text \<open>
  \<open>train_test_split\<close> belongs to scikit-learn, not to the repository. What it does with
  the arguments the script passes is written out; the random generator it draws from is a
  parameter: \<open>seeded lib s\<close> is the state of a generator created from the seed \<open>s\<close>, and
  \<open>permutation lib g n\<close> is the shuffle of \<open>0 ..< n\<close> drawn in state \<open>g\<close>, with the state
  after the draw. With \<open>random_state\<close> an integer a fresh generator is seeded for the call;
  with \<open>None\<close> the ambient generator of the process is used and advanced. A fractional
  \<open>test_size\<close> is written as the exact fraction (numerator, denominator): the test set has
  \<open>ceil(test_size * n_samples)\<close> rows, the train set the rest, and an empty train set is a
  \<open>ValueError\<close>. The first \<open>n_test\<close> positions of the shuffle are the test rows and the
  following \<open>n_train\<close> the train rows; rows are taken by position (\<open>iloc\<close>) and keep their
  index labels.
\<close>

record 'g split_lib =
  seeded :: "nat \<Rightarrow> 'g"
  permutation :: "'g \<Rightarrow> nat \<Rightarrow> nat list \<times> 'g"

definition iloc :: "frame \<Rightarrow> nat list \<Rightarrow> py_error + frame" where
  "iloc df idxs =
     (if list_all (\<lambda>i. i < length (rows df)) idxs
      then Inr (df\<lparr>rows := map (\<lambda>i. rows df ! i) idxs\<rparr>)
      else Inl IndexError)"

definition train_test_split ::
  "'g split_lib \<Rightarrow> 'g \<Rightarrow> frame \<Rightarrow> nat \<times> nat \<Rightarrow> nat option
     \<Rightarrow> py_error + ((frame \<times> frame) \<times> 'g)" where
  "train_test_split lib ambient df test_size random_state =
     (let n_samples = length (rows df);
          n_test = (n_samples * fst test_size + snd test_size - 1) div snd test_size;
          n_train = n_samples - n_test
      in if n_train = 0 then Inl ValueError
         else
           let (perm, ambient') =
                 (case random_state of
                    None \<Rightarrow> permutation lib ambient n_samples
                  | Some seed \<Rightarrow> (fst (permutation lib (seeded lib seed) n_samples), ambient));
               ind_test = take n_test perm;
               ind_train = take n_train (drop n_test perm)
           in case iloc df ind_train of
                Inl e \<Rightarrow> Inl e
              | Inr train \<Rightarrow>
                  (case iloc df ind_test of
                     Inl e \<Rightarrow> Inl e
                   | Inr test \<Rightarrow> Inr ((train, test), ambient')))"

text \<open>
  \<^verbatim>\<open>
  train, test = train_test_split(df[1], test_size=0.2, random_state=1)
  train, val = train_test_split(train, test_size=0.25, random_state=1)
  \<close>
\<close>

definition split_frame ::
  "'g split_lib \<Rightarrow> 'g \<Rightarrow> frame \<Rightarrow> py_error + ((frame \<times> frame \<times> frame) \<times> 'g)" where
  "split_frame lib ambient df =
     (case train_test_split lib ambient df (1, 5) (Some 1) of
        Inl e \<Rightarrow> Inl e
      | Inr ((train, test), ambient) \<Rightarrow>
          (case train_test_split lib ambient train (1, 4) (Some 1) of
             Inl e \<Rightarrow> Inl e
           | Inr ((train, val), ambient) \<Rightarrow> Inr ((train, val, test), ambient)))"

section \<open>Export of the partitions\<close>

text \<open>\<open>str(i)\<close> for a non-negative integer: its decimal digits.\<close>

fun str_nat :: "nat \<Rightarrow> string" where
  "str_nat n =
     (if n < 10 then [''0123456789'' ! n]
      else str_nat (n div 10) @ [''0123456789'' ! (n mod 10)])"

declare str_nat.simps [simp del]

text \<open>
  \<open>json.loads(df.to_json(orient="index"))\<close>: a dictionary from the index label, as a string,
  to the dictionary of the row's cells by column name. pandas refuses (\<open>ValueError\<close>) a frame
  whose index labels or column names are not unique.
\<close>

definition to_json_index :: "frame \<Rightarrow> py_error + (string, (string, json) pydict) pydict" where
  "to_json_index df =
     (if distinct (map fst (rows df)) \<and> distinct (columns df)
      then Inr (map (\<lambda>(i, cells). (str_nat i, zip (columns df) cells)) (rows df))
      else Inl ValueError)"

datatype export = CsvFile frame | JsonlFile "(string, json) pydict list"

definition path_join :: "string \<Rightarrow> string \<Rightarrow> string" where
  "path_join data_dir filename = data_dir @ ''/'' @ filename"

definition JSON_DIR :: string where "JSON_DIR = ''json''"
definition CSV_DIR :: string where "CSV_DIR = ''csv''"

definition create_csv_data ::
  "(string \<rightharpoonup> export) \<Rightarrow> string \<Rightarrow> string \<Rightarrow> frame \<Rightarrow> (string \<rightharpoonup> export)" where
  "create_csv_data fs data_dir csv_filename df = fs(path_join data_dir csv_filename \<mapsto> CsvFile df)"

definition write_jsonl ::
  "(string \<rightharpoonup> export) \<Rightarrow> string \<Rightarrow> string \<Rightarrow> (string, (string, json) pydict) pydict
     \<Rightarrow> (string \<rightharpoonup> export)" where
  "write_jsonl fs data_dir jsonl_filename json_dict =
     fs(path_join data_dir jsonl_filename \<mapsto> JsonlFile (create_jsonl_data json_dict))"

text \<open>
  The body of the loop \<open>for df in csv_files\<close> that splits one table and writes its six
  files. An exception ends the script; files written before it stay written, which the
  error value does not record.
\<close>

definition process_file ::
  "'g split_lib \<Rightarrow> 'g \<Rightarrow> (string \<rightharpoonup> export) \<Rightarrow> string \<times> frame
     \<Rightarrow> py_error + ((string \<rightharpoonup> export) \<times> 'g)" where
  "process_file lib ambient fs df =
     (case split_frame lib ambient (snd df) of
        Inl e \<Rightarrow> Inl e
      | Inr ((train, val, test), ambient) \<Rightarrow>
          let fs = create_csv_data fs CSV_DIR (fst df @ ''_train.csv'') train;
              fs = create_csv_data fs CSV_DIR (fst df @ ''_val.csv'') val;
              fs = create_csv_data fs CSV_DIR (fst df @ ''_test.csv'') test
          in case to_json_index train of
               Inl e \<Rightarrow> Inl e
             | Inr train_df_json \<Rightarrow>
                 (case to_json_index val of
                    Inl e \<Rightarrow> Inl e
                  | Inr val_df_json \<Rightarrow>
                      (case to_json_index test of
                         Inl e \<Rightarrow> Inl e
                       | Inr test_df_json \<Rightarrow>
                           let fs = write_jsonl fs JSON_DIR (fst df @ ''_train.jsonl'') train_df_json;
                               fs = write_jsonl fs JSON_DIR (fst df @ ''_val.jsonl'') val_df_json;
                               fs = write_jsonl fs JSON_DIR (fst df @ ''_test.jsonl'') test_df_json
                           in Inr (fs, ambient))))"

fun process_files ::
  "'g split_lib \<Rightarrow> 'g \<Rightarrow> (string \<rightharpoonup> export) \<Rightarrow> (string \<times> frame) list
     \<Rightarrow> py_error + ((string \<rightharpoonup> export) \<times> 'g)" where
  "process_files lib ambient fs [] = Inr (fs, ambient)"
| "process_files lib ambient fs (df # csv_files) =
     (case process_file lib ambient fs df of
        Inl e \<Rightarrow> Inl e
      | Inr (fs, ambient) \<Rightarrow> process_files lib ambient fs csv_files)"

text \<open>
  A stand-in for the library's generator, used to run the model on concrete tables: the
  shuffle of \<open>0 ..< n\<close> is its reversal and the generator state counts the draws.
\<close>

definition example_lib :: "nat split_lib" where
  "example_lib = \<lparr>seeded = (\<lambda>s. s), permutation = (\<lambda>g n. (rev [0 ..< n], Suc g))\<rparr>"

text \<open>
  What a record of the line-delimited file is expected to be for a row of a table with
  the given columns: the row's cells by column name, and \<open>id\<close> the decimal string of the
  row's index label.
\<close>

definition expected_record :: "string list \<Rightarrow> nat \<times> json list \<Rightarrow> (string \<rightharpoonup> json)" where
  "expected_record cols row = (map_of (zip cols (snd row)))(''id'' \<mapsto> JStr (str_nat (fst row)))"

text \<open>
  What the theorems below ask of the library's generator: every shuffle of \<open>0 ..< n\<close> is a
  permutation of \<open>0 ..< n\<close>.
\<close>

definition lib_ok :: "'g split_lib \<Rightarrow> bool" where
  "lib_ok lib = (\<forall>g n. mset (fst (permutation lib g n)) = mset [0 ..< n])"

text \<open>
  Two observations on the output: the \<open>id\<close> field of a written record, and the content of
  a path after a run of the loop body (nothing when the run failed or never wrote it).
\<close>

definition id_of :: "(string, json) pydict \<Rightarrow> json option" where
  "id_of obj = map_of obj ''id''"

definition written_file ::
  "py_error + ((string \<rightharpoonup> export) \<times> 'g) \<Rightarrow> string \<Rightarrow> export option" where
  "written_file result path = (case result of Inl e \<Rightarrow> None | Inr (fs, ambient) \<Rightarrow> fs path)"

section \<open>The ChexNet model and its checkpoint\<close>

text \<open>
  Tensors are values of an arbitrary type \<open>'t\<close>. A module is one of the three layers the
  script builds itself; the feature extractor of torchvision's DenseNet, which the script
  never looks into, is the dictionary of its parameters and buffers by name. torchvision's
  \<open>DenseNet\<close> has the two children \<open>features\<close> and \<open>classifier\<close>; the script's
  \<open>DenseNet121\<close> has the one child \<open>densenet121\<close>.
\<close>

datatype 't module = Linear nat nat 't 't | Sigmoid | Sequential "'t module list"

record 't densenet =
  features :: "(string, 't) pydict"
  classifier :: "'t module"

record 't chexnet =
  densenet121 :: "'t densenet"

text \<open>
  \<^verbatim>\<open>
  def __init__(self, out_size):
      super(DenseNet121, self).__init__()
      self.densenet121 = torchvision.models.densenet121(pretrained=True)
      num_ftrs = self.densenet121.classifier.in_features
      self.densenet121.classifier = nn.Sequential(
          nn.Linear(num_ftrs, out_size),
          nn.Sigmoid()
      )
  \<close>
  The downloaded model \<open>pretrained\<close> and the initialiser \<open>init\<close> of a new linear layer
  (its weight and bias, for the given sizes) are parameters. Only a \<open>Linear\<close> has
  \<open>in_features\<close>.
\<close>

definition in_features :: "'t module \<Rightarrow> py_error + nat" where
  "in_features m = (case m of Linear num_in num_out w b \<Rightarrow> Inr num_in | _ \<Rightarrow> Inl AttributeError)"

definition DenseNet121_init ::
  "'t densenet \<Rightarrow> (nat \<Rightarrow> nat \<Rightarrow> 't \<times> 't) \<Rightarrow> nat \<Rightarrow> py_error + 't chexnet" where
  "DenseNet121_init pretrained init out_size =
     (case in_features (classifier pretrained) of
        Inl e \<Rightarrow> Inl e
      | Inr num_ftrs \<Rightarrow>
          Inr \<lparr>densenet121 = pretrained\<lparr>classifier :=
                 Sequential [Linear num_ftrs out_size (fst (init num_ftrs out_size))
                                    (snd (init num_ftrs out_size)),
                             Sigmoid]\<rparr>\<rparr>)"

text \<open>
  \<open>state_dict()\<close>: the parameters of a module under their dotted names; the children of a
  \<open>Sequential\<close> are named by their position.
\<close>

definition with_prefix :: "string \<Rightarrow> (string, 't) pydict \<Rightarrow> (string, 't) pydict" where
  "with_prefix pre d = map (\<lambda>(k, v). (pre @ k, v)) d"

fun module_state :: "'t module \<Rightarrow> (string, 't) pydict"
  and seq_state :: "nat \<Rightarrow> 't module list \<Rightarrow> (string, 't) pydict" where
  "module_state (Linear num_in num_out w b) = [(''weight'', w), (''bias'', b)]"
| "module_state Sigmoid = []"
| "module_state (Sequential ms) = seq_state 0 ms"
| "seq_state i [] = []"
| "seq_state i (m # ms) = with_prefix (str_nat i @ ''.'') (module_state m) @ seq_state (Suc i) ms"

definition densenet_state :: "'t densenet \<Rightarrow> (string, 't) pydict" where
  "densenet_state d =
     with_prefix ''features.'' (features d) @ with_prefix ''classifier.'' (module_state (classifier d))"

definition chexnet_state :: "'t chexnet \<Rightarrow> (string, 't) pydict" where
  "chexnet_state m = with_prefix ''densenet121.'' (densenet_state (densenet121 m))"

text \<open>
  \<open>load_state_dict\<close> with its default \<open>strict=True\<close>. A state dictionary may carry version
  metadata per module (\<open>state_dict._metadata\<close>, here the version by module name; a
  dictionary unpickled from an old checkpoint carries none, and the loop of the script
  leaves the attribute alone). A batch-norm layer whose metadata version is absent or
  below 2 first fills in its counter \<open>num_batches_tracked\<close> when the dictionary lacks it;
  which tensor it puts there depends on the version of the library (a zero, or the
  layer's own counter), so it is the parameter \<open>fill\<close>, applied to the layer's own counter.
  In the feature extractor the buffers named \<open>num_batches_tracked\<close> are those counters.
  After that, a key the model lacks, a key of the model that is missing, or a tensor of
  another shape is a \<open>RuntimeError\<close> and nothing is loaded; otherwise every parameter takes
  the tensor stored under its name. The shape of a tensor is the parameter \<open>shape\<close>.
\<close>

definition ends_with :: "string \<Rightarrow> string \<Rightarrow> bool" where
  "ends_with s suffix = (length suffix \<le> length s \<and> drop (length s - length suffix) s = suffix)"

definition fills_in :: "(string, nat) pydict \<Rightarrow> string \<Rightarrow> bool" where
  "fills_in metadata name =
     (ends_with name ''.num_batches_tracked''
      \<and> (case map_of metadata (take (length name - length ''.num_batches_tracked'') name) of
            None \<Rightarrow> True
          | Some version \<Rightarrow> version < 2))"

definition fill_missing ::
  "('t \<Rightarrow> 't) \<Rightarrow> (string, 't) pydict \<Rightarrow> (string, nat) pydict \<Rightarrow> (string, 't) pydict
     \<Rightarrow> (string, 't) pydict" where
  "fill_missing fill own metadata state_dict =
     state_dict @ map (\<lambda>(k, v). (k, fill v))
       (filter (\<lambda>(k, v). k \<notin> set (keys state_dict) \<and> fills_in metadata k) own)"

definition pick :: "(string \<rightharpoonup> 't) \<Rightarrow> string \<Rightarrow> 't \<Rightarrow> 't" where
  "pick sd name old = (case sd name of None \<Rightarrow> old | Some t \<Rightarrow> t)"

fun load_module :: "(string \<rightharpoonup> 't) \<Rightarrow> string \<Rightarrow> 't module \<Rightarrow> 't module"
  and load_seq :: "(string \<rightharpoonup> 't) \<Rightarrow> string \<Rightarrow> nat \<Rightarrow> 't module list \<Rightarrow> 't module list" where
  "load_module sd pre (Linear num_in num_out w b) =
     Linear num_in num_out (pick sd (pre @ ''weight'') w) (pick sd (pre @ ''bias'') b)"
| "load_module sd pre Sigmoid = Sigmoid"
| "load_module sd pre (Sequential ms) = Sequential (load_seq sd pre 0 ms)"
| "load_seq sd pre i [] = []"
| "load_seq sd pre i (m # ms) =
     load_module sd (pre @ str_nat i @ ''.'') m # load_seq sd pre (Suc i) ms"

definition load_state_dict ::
  "('t \<Rightarrow> nat list) \<Rightarrow> ('t \<Rightarrow> 't) \<Rightarrow> 't chexnet \<Rightarrow> (string, 't) pydict \<Rightarrow> (string, nat) pydict
     \<Rightarrow> py_error + 't chexnet" where
  "load_state_dict shape fill model state_dict metadata =
     (let own = chexnet_state model;
          state_dict = fill_missing fill own metadata state_dict
      in if set (keys state_dict) = set (keys own)
            \<and> list_all (\<lambda>(k, v). map_option shape (map_of state_dict k) = Some (shape v)) own
         then Inr \<lparr>densenet121 =
                \<lparr>features = map (\<lambda>(k, v). (k, pick (map_of state_dict) (''densenet121.features.'' @ k) v))
                                 (features (densenet121 model)),
                 classifier = load_module (map_of state_dict) ''densenet121.classifier.''
                                 (classifier (densenet121 model))\<rparr>\<rparr>
         else Inl RuntimeError)"

section \<open>The checkpoint section of the script\<close>

text \<open>
  The files and directories the section sees, and the lines printed. A file holds a
  pickled checkpoint (of which the script reads only the entry \<open>state_dict\<close>, present or
  not; with it comes its version metadata), a pickled module written by \<open>torch.save\<close>, or
  something \<open>torch.load\<close> cannot read.
\<close>

datatype 't torch_file =
    Checkpoint "((string, 't) pydict \<times> (string, nat) pydict) option"
  | SavedModule "'t densenet"
  | Unreadable

record 't world =
  files :: "string \<rightharpoonup> 't torch_file"
  dirs :: "string set"
  stdout :: "string list"

definition SAVED_MODELS_DIR :: string where "SAVED_MODELS_DIR = ''models''"
definition CKPT_PATH :: string where "CKPT_PATH = path_join SAVED_MODELS_DIR ''model.pth.tar''"
definition N_CLASSES :: nat where "N_CLASSES = 14"

definition isfile :: "'t world \<Rightarrow> string \<Rightarrow> bool" where
  "isfile w path = (case files w path of None \<Rightarrow> False | Some f \<Rightarrow> True)"

definition py_print :: "'t world \<Rightarrow> string \<Rightarrow> 't world" where
  "py_print w line = w\<lparr>stdout := stdout w @ [line]\<rparr>"

text \<open>
  \<open>torch.save(obj, path)\<close> creates the file but no directory: when the directory of the
  path does not exist it raises (a \<open>RuntimeError\<close> naming the parent directory in current
  versions of the library, a \<open>FileNotFoundError\<close> in old ones) and writes nothing. The
  script creates no directory. A path without a directory part names a file of the
  working directory.
\<close>

definition dirname :: "string \<Rightarrow> string" where
  "dirname path = rev (drop 1 (dropWhile (\<lambda>c. c \<noteq> CHR ''/'') (rev path)))"

definition torch_save :: "'t world \<Rightarrow> 't densenet \<Rightarrow> string \<Rightarrow> py_error + 't world" where
  "torch_save w obj path =
     (if dirname path = [] \<or> dirname path \<in> dirs w
      then Inr (w\<lparr>files := (files w)(path \<mapsto> SavedModule obj)\<rparr>)
      else Inl RuntimeError)"

text \<open>
  \<open>checkpoint = torch.load(CKPT_PATH, ...)\<close> followed by \<open>checkpoint['state_dict']\<close>: a
  missing file is a \<open>FileNotFoundError\<close> (not reached behind \<open>isfile\<close>), a module is not
  subscriptable, a checkpoint without the entry gives \<open>KeyError\<close>.
\<close>

definition load_checkpoint ::
  "'t world \<Rightarrow> string \<Rightarrow> py_error + ((string, 't) pydict \<times> (string, nat) pydict)" where
  "load_checkpoint w path =
     (case files w path of
        None \<Rightarrow> Inl FileNotFoundError
      | Some Unreadable \<Rightarrow> Inl UnpicklingError
      | Some (SavedModule m) \<Rightarrow> Inl TypeError
      | Some (Checkpoint None) \<Rightarrow> Inl KeyError
      | Some (Checkpoint (Some state_dict)) \<Rightarrow> Inr state_dict)"

text \<open>
  \<^verbatim>\<open>
  model_ft = DenseNet121(N_CLASSES)
  if os.path.isfile(CKPT_PATH):
      print("=> loading checkpoint")
      checkpoint = torch.load(CKPT_PATH, map_location=torch.device('cpu'))
      state_dict = checkpoint['state_dict']
      ... the remapping loop ...
      model_ft.load_state_dict(state_dict)
      print("=> loaded checkpoint")
  else:
      print("=> no checkpoint found")
  torch.save(model_ft.densenet121, os.path.join(SAVED_MODELS_DIR, 'saved_chexnet.pt'))
  print('Model saved.')
  \<close>
\<close>

definition adapt_model ::
  "('t \<Rightarrow> nat list) \<Rightarrow> ('t \<Rightarrow> 't) \<Rightarrow> 't chexnet \<Rightarrow> 't world
     \<Rightarrow> py_error + ('t chexnet \<times> 't world)" where
  "adapt_model shape fill model_ft w =
     (if isfile w CKPT_PATH then
        let w = py_print w ''=> loading checkpoint'' in
        case load_checkpoint w CKPT_PATH of
          Inl e \<Rightarrow> Inl e
        | Inr (state_dict, metadata) \<Rightarrow>
            (case remap state_dict of
               Inl e \<Rightarrow> Inl e
             | Inr state_dict \<Rightarrow>
                 (case load_state_dict shape fill model_ft state_dict metadata of
                    Inl e \<Rightarrow> Inl e
                  | Inr model_ft \<Rightarrow> Inr (model_ft, py_print w ''=> loaded checkpoint'')))
      else Inr (model_ft, py_print w ''=> no checkpoint found''))"

definition chexnet_section ::
  "('t \<Rightarrow> nat list) \<Rightarrow> ('t \<Rightarrow> 't) \<Rightarrow> 't densenet \<Rightarrow> (nat \<Rightarrow> nat \<Rightarrow> 't \<times> 't) \<Rightarrow> 't world
     \<Rightarrow> py_error + 't world" where
  "chexnet_section shape fill pretrained init w =
     (case DenseNet121_init pretrained init N_CLASSES of
        Inl e \<Rightarrow> Inl e
      | Inr model_ft \<Rightarrow>
          (case adapt_model shape fill model_ft w of
             Inl e \<Rightarrow> Inl e
           | Inr (model_ft, w) \<Rightarrow>
               (case torch_save w (densenet121 model_ft)
                       (path_join SAVED_MODELS_DIR ''saved_chexnet.pt'') of
                  Inl e \<Rightarrow> Inl e
                | Inr w \<Rightarrow> Inr (py_print w ''Model saved.''))))"

text \<open>
  Stand-ins for running the section on a concrete model: tensors are numbers, all of one
  shape, and a filled-in counter is 0; the downloaded model has a convolution weight, a
  batch-norm weight with its counter, and a linear classifier; a new linear layer gets
  weight 4 and bias 5. The example checkpoint is an old one: under the wrapper prefix, with
  the nested batch-norm name, without the counter and without metadata.
  \<open>saved_artifact\<close> is what the output path holds after a run, nothing when the run failed.
\<close>

definition example_shape :: "nat \<Rightarrow> nat list" where
  "example_shape t = []"

definition example_fill :: "nat \<Rightarrow> nat" where
  "example_fill t = 0"

definition example_pretrained :: "nat densenet" where
  "example_pretrained =
     \<lparr>features = [(''conv0.weight'', 7),
                  (''denseblock1.denselayer1.norm1.weight'', 8),
                  (''denseblock1.denselayer1.norm1.num_batches_tracked'', 9)],
      classifier = Linear 1024 1000 2 3\<rparr>"

definition example_init :: "nat \<Rightarrow> nat \<Rightarrow> nat \<times> nat" where
  "example_init num_in num_out = (4, 5)"

definition example_checkpoint :: "nat torch_file" where
  "example_checkpoint = Checkpoint (Some
     ([(''module.densenet121.features.conv0.weight'', 10),
       (''module.densenet121.features.denseblock1.denselayer1.norm.1.weight'', 13),
       (''module.densenet121.classifier.0.weight'', 11),
       (''module.densenet121.classifier.0.bias'', 12)], []))"

definition saved_artifact :: "py_error + 't world \<Rightarrow> 't torch_file option" where
  "saved_artifact result =
     (case result of
        Inl e \<Rightarrow> None
      | Inr w \<Rightarrow> files w (path_join SAVED_MODELS_DIR ''saved_chexnet.pt''))"

section \<open>Properties of the dictionary model\<close>

lemma map_of_replace:
  "map_of (map (\<lambda>(k', v'). if k' = k then (k', v) else (k', v')) d) x =
     (if x = k then (if k \<in> fst ` set d then Some v else None) else map_of d x)"
  by (induction d) (force simp: image_iff)+

lemma map_of_dict_set: "map_of (dict_set d k v) = (map_of d)(k \<mapsto> v)"
proof (cases "k \<in> set (keys d)")
  case True
  then show ?thesis by (auto simp: dict_set_def keys_def map_of_replace fun_eq_iff)
next
  case False
  then have "map_of d k = None" by (simp add: keys_def map_of_eq_None_iff)
  with False show ?thesis by (auto simp: dict_set_def map_add_def fun_eq_iff split: option.splits)
qed

lemma map_fst_replace:
  "map (fst \<circ> (\<lambda>(k', v'). if k' = k then (k', v) else (k', v'))) d = map fst d"
  by (induction d) (simp_all add: case_prod_beta)

lemma keys_dict_set_list:
  "keys (dict_set d k v) = (if k \<in> set (keys d) then keys d else keys d @ [k])"
  unfolding dict_set_def keys_def by (simp add: map_fst_replace)

lemma keys_dict_set: "set (keys (dict_set d k v)) = insert k (set (keys d))"
  by (simp add: keys_dict_set_list insert_absorb)

lemma distinct_dict_set: "distinct (keys d) \<Longrightarrow> distinct (keys (dict_set d k v))"
  by (simp add: keys_dict_set_list)

lemma map_of_filter_key: "map_of (filter (\<lambda>(k', v'). k' \<noteq> k) d) = (map_of d)(k := None)"
  by (induction d) (auto simp: fun_eq_iff)

lemma dict_del_Inr:
  "k \<in> set (keys d) \<Longrightarrow> \<exists>d'. dict_del d k = Inr d' \<and> map_of d' = (map_of d)(k := None)
     \<and> set (keys d') = set (keys d) - {k} \<and> (distinct (keys d) \<longrightarrow> distinct (keys d'))"
  by (auto simp: dict_del_def map_of_filter_key keys_def distinct_map_filter)

section \<open>Properties of the pattern and of the key transform\<close>

lemma rx_match_length: "r \<in> set (rx_match x s) \<Longrightarrow> length r \<le> length s"
proof (induction x arbitrary: s r)
  case (Seq a b)
  then obtain m where "m \<in> set (rx_match a s)" "r \<in> set (rx_match b m)" by auto
  with Seq.IH show ?case by (meson le_trans)
qed (auto simp: starts_with_def split: if_splits list.splits)

lemma rx_match_lit_dot: "r \<in> set (rx_match (Lit ''.'') s) \<Longrightarrow> Suc (length r) \<le> length s"
  by (cases s) (auto simp: starts_with_def split: if_splits)

lemma match_paths_shorter:
  assumes "(g1, g2) \<in> set (match_paths key)"
  shows "length g1 + length g2 < length key"
proof -
  from assms obtain r1 r2 r3 where
    r1: "r1 \<in> set (rx_match group1 key)" and r2: "r2 \<in> set (rx_match (Lit ''.'') r1)"
    and r3: "r3 \<in> set (rx_match group2 r2)"
    and g: "g1 = take (length key - length r1) key" "g2 = take (length r2 - length r3) r2"
    unfolding match_paths_def by auto
  have "length r1 \<le> length key" using r1 by (rule rx_match_length)
  moreover have "Suc (length r2) \<le> length r1" using r2 by (rule rx_match_lit_dot)
  ultimately show ?thesis using g by simp
qed

lemma pattern_match_shorter:
  assumes "pattern_match key = Some (g1, g2)"
  shows "length g1 + length g2 < length key"
proof -
  from assms have "(g1, g2) \<in> set (match_paths key)"
    by (auto simp: pattern_match_def split: list.splits)
  then show ?thesis by (rule match_paths_shorter)
qed

lemma new_key_length: "length (new_key True key) = length (new_key False key) - 7"
  by (simp add: new_key_def)

lemma rename_length: "length (new_key False key) \<le> length key"
  using pattern_match_shorter[of key]
  by (auto simp: new_key_def split: option.splits) 

lemma new_key_fixed: "new_key True key = key \<longleftrightarrow> key = []"
proof
  assume "new_key True key = key"
  then have "length key = length (new_key False key) - 7" using new_key_length[of key] by simp
  with rename_length[of key] show "key = []" by (cases key) auto
next
  assume "key = []" 
  then show "new_key True key = key"
   by (simp add: new_key_def pattern_match_def match_paths_def group1_def starts_with_def)
qed

text \<open>
  A match splits the key at the dot that rule 1 removes: the key is group 1, a dot, group 2
  (one of eight texts) and at most a final line feed, and the renamed key is the two
  groups joined.
\<close>

lemma rx_match_suffix: "r \<in> set (rx_match x s) \<Longrightarrow> \<exists>p. s = p @ r"
proof (induction x arbitrary: s r)
  case (Lit l)
  then have "r = drop (length l) s" by (simp split: if_splits)
  then have "s = take (length l) s @ r" by simp
  then show ?case ..
next
  case (One c)
  then show ?case by (cases s) (auto split: if_splits)
next
  case (Star c)
  then obtain k where "r = drop k s" by auto
  then have "s = take k s @ r" by simp
  then show ?case ..
next
  case (Plus c)
  then obtain k where "r = drop k s" by auto
  then have "s = take k s @ r" by simp
  then show ?case ..
next
  case (Seq a b)
  then obtain m where "m \<in> set (rx_match a s)" "r \<in> set (rx_match b m)" by auto
  with Seq.IH obtain p q where "s = p @ m" "m = q @ r" by blast
  then have "s = (p @ q) @ r" by simp
  then show ?case ..
next
  case (Alt a b)
  then show ?case by auto
next
  case Eos
  then show ?case by (auto split: if_splits)
qed


lemma rx_match_lit: "r \<in> set (rx_match (Lit l) s) \<Longrightarrow> s = l @ r"
proof -
  assume "r \<in> set (rx_match (Lit l) s)"
  then have "take (length l) s = l" "r = drop (length l) s"
    by (simp_all add: starts_with_def split: if_splits)
  then show "s = l @ r" by (metis append_take_drop_id)
qed

lemma rx_match_alt: "r \<in> set (rx_match (Alt a b) s) \<Longrightarrow>
    r \<in> set (rx_match a s) \<or> r \<in> set (rx_match b s)"
  by simp

lemma rx_match_seq: "r \<in> set (rx_match (Seq a b) s) \<Longrightarrow>
    \<exists>m \<in> set (rx_match a s). r \<in> set (rx_match b m)"
  by simp


lemma group2_texts:
  assumes "r \<in> set (rx_match group2 s)"
  shows "\<exists>g \<in> set [''1.weight'', ''1.bias'', ''1.running_mean'', ''1.running_var'',
                    ''2.weight'', ''2.bias'', ''2.running_mean'', ''2.running_var'']. s = g @ r"
proof -
  let ?names = "Alt (Lit ''weight'') (Alt (Lit ''bias'') (Alt (Lit ''running_mean'') (Lit ''running_var'')))"
  from assms have "\<exists>m \<in> set (rx_match (One (OneOf ''12'')) s). r \<in> set (rx_match (Seq (Lit ''.'') ?names) m)"
    unfolding group2_def by (rule rx_match_seq)
  then obtain t where t1: "t \<in> set (rx_match (One (OneOf ''12'')) s)"
    and t2: "r \<in> set (rx_match (Seq (Lit ''.'') ?names) t)" ..
  from t1 have s: "s = CHR ''1'' # t \<or> s = CHR ''2'' # t"
    by (cases s) (simp_all split: if_splits)
  from rx_match_seq[OF t2] obtain u where u1: "u \<in> set (rx_match (Lit ''.'') t)"
    and u2: "r \<in> set (rx_match ?names u)" ..
  from rx_match_lit[OF u1] have t: "t = ''.'' @ u" .
  from rx_match_alt[OF u2] have "u = ''weight'' @ r \<or> u = ''bias'' @ r
      \<or> u = ''running_mean'' @ r \<or> u = ''running_var'' @ r"
    by (metis rx_match_alt rx_match_lit)
  with s t show ?thesis by (elim disjE) simp_all
qed


lemma pattern_match_shape:
  assumes "pattern_match key = Some (g1, g2)"
  shows "\<exists>nl. key = g1 @ ''.'' @ g2 @ nl \<and> (nl = [] \<or> nl = [CHR 0x0A])
       \<and> g2 \<in> set [''1.weight'', ''1.bias'', ''1.running_mean'', ''1.running_var'',
                    ''2.weight'', ''2.bias'', ''2.running_mean'', ''2.running_var'']"
proof -
  from assms have "(g1, g2) \<in> set (match_paths key)"
    by (auto simp: pattern_match_def split: list.splits)
  then obtain r1 r2 r3 where
    r1: "r1 \<in> set (rx_match group1 key)" and r2: "r2 \<in> set (rx_match (Lit ''.'') r1)"
    and r3: "r3 \<in> set (rx_match group2 r2)" and r4: "rx_match Eos r3 \<noteq> []"
    and g: "g1 = take (length key - length r1) key" "g2 = take (length r2 - length r3) r2"
    unfolding match_paths_def by auto
  from rx_match_suffix[OF r1] obtain p1 where k: "key = p1 @ r1" ..
  from rx_match_lit[OF r2] have d: "r1 = ''.'' @ r2" .
  from group2_texts[OF r3] obtain t where
    t: "t \<in> set [''1.weight'', ''1.bias'', ''1.running_mean'', ''1.running_var'',
                 ''2.weight'', ''2.bias'', ''2.running_mean'', ''2.running_var'']" "r2 = t @ r3"
    by blast
  from r4 have e: "r3 = [] \<or> r3 = [CHR 0x0A]" by (simp split: if_splits)
  have g1: "g1 = p1" unfolding g(1) k by simp
  have g2: "g2 = t" unfolding g(2) t(2) by simp
  have "key = g1 @ ''.'' @ g2 @ r3" unfolding g1 g2 using k d t(2) by simp
  with e t(1) g2 show ?thesis by blast
qed

lemma rename_drops_dot:
  assumes "pattern_match key = Some (g1, g2)"
  shows "\<exists>nl. key = g1 @ ''.'' @ g2 @ nl \<and> new_key False key = g1 @ g2
            \<and> (nl = [] \<or> nl = [CHR 0x0A])"
  using pattern_match_shape[OF assms] assms by (auto simp: new_key_def)

text \<open>
  C3. The key \<open>module.features.denselayer1.norm.1.weight\<close> matches the pattern; rule 1
  renames it to \<open>module.features.denselayer1.norm1.weight\<close> and the strip of seven
  characters, applied to the renamed key, gives \<open>features.denselayer1.norm1.weight\<close>. The
  key \<open>module.classifier.0.weight\<close> does not match, is left alone by rule 1 and is
  stripped to \<open>classifier.0.weight\<close>.
\<close>

theorem new_key_scenarios:
  "pattern_match ''module.features.denselayer1.norm.1.weight''
     = Some (''module.features.denselayer1.norm'', ''1.weight'')
   \<and> new_key False ''module.features.denselayer1.norm.1.weight''
     = ''module.features.denselayer1.norm1.weight''
   \<and> new_key True ''module.features.denselayer1.norm.1.weight''
     = drop 7 ''module.features.denselayer1.norm1.weight''
   \<and> new_key True ''module.features.denselayer1.norm.1.weight''
     = ''features.denselayer1.norm1.weight''
   \<and> pattern_match ''module.classifier.0.weight'' = None
   \<and> new_key False ''module.classifier.0.weight'' = ''module.classifier.0.weight''
   \<and> new_key True ''module.classifier.0.weight'' = ''classifier.0.weight''"
  by code_simp

text \<open>
  C9. The strip is unconditional: for every key the result of the loop body is the
  (possibly renamed) key without its first seven characters, whatever those characters
  are. A key without the wrapper prefix loses them all the same:
  \<open>features.conv0.weight\<close> becomes \<open>s.conv0.weight\<close>.
\<close>

theorem strip_unconditional:
  "new_key True key = drop 7 (new_key False key)
   \<and> new_key False key = (case pattern_match key of Some (g1, g2) \<Rightarrow> g1 @ g2 | None \<Rightarrow> key)
   \<and> take 7 (new_key False key) @ new_key True key = new_key False key
   \<and> length (new_key True key) = length (new_key False key) - 7
   \<and> new_key True ''features.conv0.weight'' = ''s.conv0.weight''"
proof -
  have "new_key True ''features.conv0.weight'' = ''s.conv0.weight''" by code_simp
  then show ?thesis by (simp add: new_key_def)
qed

section \<open>Properties of the remapping loop\<close>

lemma remap_step_Inr:
  assumes "map_of d k = Some v"
  shows "\<exists>d'. remap_step True k d = Inr d'
           \<and> map_of d' = ((map_of d)(new_key True k \<mapsto> v))(k := None)
           \<and> set (keys d') = insert (new_key True k) (set (keys d)) - {k}
           \<and> (distinct (keys d) \<longrightarrow> distinct (keys d'))"
proof -
  let ?d1 = "dict_set d (new_key True k) v"
  have "k \<in> set (keys d)" using assms by (auto simp: keys_def dest: map_of_SomeD intro: rev_image_eqI)
  then have "k \<in> set (keys ?d1)" by (simp add: keys_dict_set)
  from dict_del_Inr[OF this] obtain d' where
    d': "dict_del ?d1 k = Inr d'" "map_of d' = (map_of ?d1)(k := None)"
        "set (keys d') = set (keys ?d1) - {k}" "distinct (keys ?d1) \<longrightarrow> distinct (keys d')"
    by blast
  have "remap_step True k d = Inr d'"
    using assms d'(1) by (simp add: remap_step_def dict_get_def)
  then show ?thesis using d' by (auto simp: map_of_dict_set keys_dict_set distinct_dict_set)
qed

lemma remap_loop_general:
  assumes "distinct (keys sd)" "snapshot_safe (keys sd)" "\<forall>(k, v) \<in> set sd. map_of d k = Some v"
    "distinct (keys d)"
  shows "\<exists>d'. remap_loop True (keys sd) d = Inr d'
           \<and> map_of d' = foldl (\<lambda>m (k, v). m(new_key True k \<mapsto> v)) (map_of d |` (- set (keys sd))) sd
           \<and> distinct (keys d')"
  using assms
proof (induction sd arbitrary: d)
  case Nil
  then show ?case by (simp add: keys_def)
next
  case (Cons kv sd)
  obtain k v where kv: "kv = (k, v)" by (cases kv)
  let ?t = "new_key True k"
  have mk: "map_of d k = Some v" using Cons.prems(3) kv by simp
  from remap_step_Inr[OF mk] obtain d1 where
    d1: "remap_step True k d = Inr d1" "map_of d1 = ((map_of d)(?t \<mapsto> v))(k := None)"
        "distinct (keys d) \<longrightarrow> distinct (keys d1)" by blast
  have knot: "k \<notin> set (keys sd)" and tnot: "?t \<notin> set (keys sd)" and tk: "?t \<noteq> k"
    using Cons.prems(1,2) kv by (auto simp: keys_def)
  have agree: "\<forall>(k', v') \<in> set sd. map_of d1 k' = Some v'"
  proof (clarify)
    fix k' v' assume in_sd: "(k', v') \<in> set sd"
    then have "k' \<in> set (keys sd)" by (force simp: keys_def)
    with knot tnot have "k' \<noteq> k" "k' \<noteq> ?t" by auto
    moreover have "map_of d k' = Some v'" using Cons.prems(3) in_sd by auto
    ultimately show "map_of d1 k' = Some v'" by (simp add: d1(2))
  qed
  have "distinct (keys sd)" "snapshot_safe (keys sd)" using Cons.prems(1,2) kv by (auto simp: keys_def)
  from Cons.IH[OF this agree] d1(3) Cons.prems(4) obtain d' where
    d': "remap_loop True (keys sd) d1 = Inr d'"
        "map_of d' = foldl (\<lambda>m (k, v). m(new_key True k \<mapsto> v)) (map_of d1 |` (- set (keys sd))) sd"
        "distinct (keys d')" by blast
  have eq: "map_of d1 |` (- set (keys sd)) = (map_of d |` (- set (keys (kv # sd))))(?t \<mapsto> v)"
    using knot tnot tk by (auto simp: fun_eq_iff restrict_map_def d1(2) kv keys_def)
  let ?F = "\<lambda>m (k, v). m(new_key True k \<mapsto> v)"
  have loop: "remap_loop True (keys (kv # sd)) d = Inr d'"
    using d1(1) d'(1) by (simp add: keys_def kv)
  have "foldl ?F (map_of d |` (- set (keys (kv # sd)))) (kv # sd)
      = foldl ?F ((map_of d |` (- set (keys (kv # sd))))(?t \<mapsto> v)) sd"
    by (simp add: kv)
  also have "\<dots> = foldl ?F (map_of d1 |` (- set (keys sd))) sd"
    by (simp only: eq)
  finally have "map_of d' = foldl ?F (map_of d |` (- set (keys (kv # sd)))) (kv # sd)"
    using d'(2) by simp
  with loop d'(3) show ?case by blast
qed

lemma map_of_foldl_dict_set:
  "map_of (foldl (\<lambda>d (k, v). dict_set d (f k) v) acc sd) = foldl (\<lambda>m (k, v). m(f k \<mapsto> v)) (map_of acc) sd"
  by (induction sd arbitrary: acc) (auto simp: map_of_dict_set)

lemma remap_exact:
  assumes "distinct (keys sd)" "snapshot_safe (keys sd)"
  shows "\<exists>d'. remap sd = Inr d' \<and> map_of d' = map_of (dict_comprehension sd) \<and> distinct (keys d')"
proof -
  have "\<forall>(k, v) \<in> set sd. map_of sd k = Some v" using assms(1) by (auto simp: keys_def)
  from remap_loop_general[OF assms this assms(1)] obtain d' where
    d': "remap sd = Inr d'"
        "map_of d' = foldl (\<lambda>m (k, v). m(new_key True k \<mapsto> v)) (map_of sd |` (- set (keys sd))) sd"
        "distinct (keys d')" unfolding remap_def by blast
  have "map_of sd |` (- set (keys sd)) = Map.empty"
    by (auto simp: fun_eq_iff restrict_map_def keys_def map_of_eq_None_iff)
  then show ?thesis using d' by (simp add: dict_comprehension_def map_of_foldl_dict_set)
qed


text \<open>
  C2. The loop does not build the comprehension for every key set. The source deletes
  the old key "only if modified", but its test \<open>match or remove_data_parallel\<close> is always
  true: the empty key, whose transformed name is itself, is written and then deleted, and
  its tensor is lost. A key whose transformed name is a key still to be visited
  overwrites that key's tensor before it is read.
\<close>

theorem remap_loses_entries:
  "remap [('''', 0::nat)] = Inr []
   \<and> dict_comprehension [('''', 0::nat)] = [('''', 0)]
   \<and> remap [(''module.module.a'', 1::nat), (''module.a'', 2)] = Inr [(''a'', 1)]
   \<and> dict_comprehension [(''module.module.a'', 1::nat), (''module.a'', 2)]
       = [(''module.a'', 1), (''a'', 2)]"
  by code_simp




section \<open>Properties of \<open>create_jsonl_data\<close>\<close>

lemma length_write_rows: "length (write_rows obj rs) = length rs"
  by (induction rs arbitrary: obj) (auto simp: Let_def)

lemma write_rows_nth:
  "i < length rs \<Longrightarrow> write_rows obj rs ! i = foldl fill_obj obj (take (Suc i) rs)"
proof (induction rs arbitrary: obj i)
  case Nil
  then show ?case by simp
next
  case (Cons row rs)
  show ?case
  proof (cases i)
    case 0
    then show ?thesis by (simp add: Let_def)
  next
    case (Suc i')
    with Cons.prems have "i' < length rs" by simp
    from Cons.IH[OF this] Suc show ?thesis by (simp add: Let_def)
  qed
qed

lemma keys_simps: "keys [] = []" "keys ((k, v) # d) = k # keys d" "keys (d @ e) = keys d @ keys e"
  by (simp_all add: keys_def)

lemma map_of_foldl_set:
  "map_of (foldl (\<lambda>obj (key, value). dict_set obj key value) obj dd) = map_of obj ++ map_of (rev dd)"
  by (induction dd arbitrary: obj) (auto simp: map_of_dict_set)

lemma keys_foldl_set:
  "set (keys (foldl (\<lambda>obj (key, value). dict_set obj key value) obj dd)) = set (keys obj) \<union> set (keys dd)"
proof (induction dd arbitrary: obj)
  case Nil
  then show ?case by (simp add: keys_simps)
next
  case (Cons kv dd)
  obtain k v where "kv = (k, v)" by (cases kv)
  with Cons show ?case by (simp add: keys_dict_set keys_simps)
qed

lemma keys_fill_obj:
  "set (keys (fill_obj obj (idx, dd))) = insert ''id'' (set (keys obj) \<union> set (keys dd))"
  by (simp add: fill_obj_def keys_foldl_set keys_dict_set)

lemma map_of_fill_obj:
  "map_of (fill_obj obj (idx, dd)) k =
     (if k \<in> set (keys dd) then map_of (rev dd) k
      else if k = ''id'' then Some (JStr idx) else map_of obj k)"
proof -
  have "k \<in> set (keys dd) \<longleftrightarrow> map_of (rev dd) k \<noteq> None"
    by (simp add: keys_def map_of_eq_None_iff)
  then show ?thesis
    by (auto simp: fill_obj_def map_of_foldl_set map_of_dict_set map_add_def split: option.splits)
qed

lemma keys_foldl_fill:
  "rs \<noteq> [] \<Longrightarrow> set (keys (foldl fill_obj obj rs)) =
     insert ''id'' (set (keys obj) \<union> (\<Union>r \<in> set rs. set (keys (snd r))))"
proof (induction rs arbitrary: obj)
  case Nil
  then show ?case by simp
next
  case (Cons row rs)
  obtain idx dd where row: "row = (idx, dd)" by (cases row)
  show ?case
  proof (cases "rs = []")
    case True
    then show ?thesis by (simp add: row keys_fill_obj)
  next
    case False
    from Cons.IH[OF this] show ?thesis by (auto simp: row keys_fill_obj)
  qed
qed

lemma map_of_foldl_fill_skip:
  "k \<noteq> ''id'' \<Longrightarrow> \<forall>r \<in> set rs. k \<notin> set (keys (snd r)) \<Longrightarrow>
     map_of (foldl fill_obj obj rs) k = map_of obj k"
proof (induction rs arbitrary: obj)
  case Nil
  then show ?case by simp
next
  case (Cons row rs)
  obtain idx dd where row: "row = (idx, dd)" by (cases row)
  with Cons show ?case by (simp add: map_of_fill_obj)
qed


lemma map_of_rev_distinct: "distinct (map fst xs) \<Longrightarrow> map_of (rev xs) = map_of xs"
proof (induction xs)
  case Nil
  then show ?case by simp
next
  case (Cons kv xs)
  obtain k v where kv: "kv = (k, v)" by (cases kv)
  with Cons.prems have "map_of xs k = None" by (simp add: map_of_eq_None_iff)
  with Cons show ?case
    by (auto simp: kv fun_eq_iff map_add_def split: option.splits)
qed

lemma foldl_fill_between:
  assumes "j < i" "i < length D" "k \<noteq> ''id''"
    "\<forall>l. j < l \<and> l \<le> i \<longrightarrow> k \<notin> set (keys (snd (D ! l)))"
  shows "map_of (foldl fill_obj obj (take (Suc i) D)) k
       = map_of (fill_obj (foldl fill_obj obj (take j D)) (D ! j)) k"
proof -
  let ?between = "drop (Suc j) (take (Suc i) D)"
  have split: "take (Suc i) D = take j D @ [D ! j] @ ?between"
  proof -
    have "take (Suc i) D = take (Suc j) (take (Suc i) D) @ ?between"
      by (simp only: append_take_drop_id)
    also have "take (Suc j) (take (Suc i) D) = take (Suc j) D" using assms(1) by (simp add: min_def)
    also have "take (Suc j) D = take j D @ [D ! j]"
      using assms(1,2) by (simp add: take_Suc_conv_app_nth)
    finally show ?thesis by simp
  qed
  have "\<forall>r \<in> set ?between. k \<notin> set (keys (snd r))"
  proof
    fix r assume "r \<in> set ?between"
    then obtain m where m: "m < length ?between" "r = ?between ! m" by (auto simp: in_set_conv_nth)
    then have "r = D ! (Suc j + m)" "Suc j + m \<le> i" using assms(2) by auto
    with assms(4) show "k \<notin> set (keys (snd r))" by simp
  qed
  from map_of_foldl_fill_skip[OF assms(3) this]
  have "map_of (foldl fill_obj (fill_obj (foldl fill_obj obj (take j D)) (D ! j)) ?between) k
      = map_of (fill_obj (foldl fill_obj obj (take j D)) (D ! j)) k" .
  moreover have "foldl fill_obj obj (take (Suc i) D)
      = foldl fill_obj (fill_obj (foldl fill_obj obj (take j D)) (D ! j)) ?between"
    by (subst split) simp
  ultimately show ?thesis by simp
qed

lemma insert_UN_upto:
  "insert a (\<Union>j \<in> {0..<Suc i}. K j) = insert a (K i) \<longleftrightarrow> (\<forall>j < i. K j \<subseteq> insert a (K i))"
proof
  assume eq: "insert a (\<Union>j \<in> {0..<Suc i}. K j) = insert a (K i)"
  show "\<forall>j < i. K j \<subseteq> insert a (K i)"
  proof (intro allI impI)
    fix j assume "j < i"
    then have "K j \<subseteq> insert a (\<Union>j \<in> {0..<Suc i}. K j)" by fastforce
    with eq show "K j \<subseteq> insert a (K i)" by simp
  qed
next
  assume sub: "\<forall>j < i. K j \<subseteq> insert a (K i)"
  have "(\<Union>j \<in> {0..<Suc i}. K j) \<subseteq> insert a (K i)"
  proof (rule UN_least)
    fix j assume "j \<in> {0..<Suc i}"
    then have "j < i \<or> j = i" by auto
    with sub show "K j \<subseteq> insert a (K i)" by auto
  qed
  moreover have "K i \<subseteq> (\<Union>j \<in> {0..<Suc i}. K j)" by fastforce
  ultimately show "insert a (\<Union>j \<in> {0..<Suc i}. K j) = insert a (K i)" by blast
qed

text \<open>
  C10, as stated, fails in two places. When the key that a later row omits is \<open>id\<close>, the
  line of the later row holds that row's own index and not the earlier row's value. And
  a line's field set can be the row's own fields (with \<open>id\<close>) for every row although the
  rows do not have the same key set: it is enough that each row's keys include those of
 the rows before it.
\<close>

theorem create_jsonl_data_counterexample:
  "create_jsonl_data [(''0'', [(''id'', JStr ''x'')]), (''1'', [])]
     = [[(''id'', JStr ''x'')], [(''id'', JStr ''1'')]]
   \<and> create_jsonl_data [(''0'', [(''a'', JInt 1)]), (''1'', [(''a'', JInt 2), (''b'', JInt 3)])]
     = [[(''id'', JStr ''0''), (''a'', JInt 1)],
        [(''id'', JStr ''1''), (''a'', JInt 2), (''b'', JInt 3)]]"
  by code_simp

text \<open>
  C10, amended. The one record object is reused across the rows and never reset. The
  object written for row \<open>i\<close> has as fields \<open>id\<close> and every key of every row up to and
  including row \<open>i\<close>. It holds the row's own cells under the row's own keys, and under
  \<open>id\<close> the row's own index string unless the row has a key \<open>id\<close> of its own. For a key
  other than \<open>id\<close> that row \<open>j\<close> had and no row after \<open>j\<close> up to \<open>i\<close> has, the object
  written for row \<open>i\<close> still holds the value of row \<open>j\<close>. The field set of the object is
  \<open>id\<close> with the row's own keys exactly when those include every key of the earlier rows.
\<close>

theorem create_jsonl_data_fields:
  assumes "i < length json_dict"
  shows "length (create_jsonl_data json_dict) = length json_dict
    \<and> (''id'' \<notin> set (keys (snd (json_dict ! i)))
        \<longrightarrow> map_of (create_jsonl_data json_dict ! i) ''id'' = Some (JStr (fst (json_dict ! i))))
    \<and> (\<forall>k. k \<in> set (keys (snd (json_dict ! i))) \<and> distinct (keys (snd (json_dict ! i)))
        \<longrightarrow> map_of (create_jsonl_data json_dict ! i) k = map_of (snd (json_dict ! i)) k)
    \<and> set (keys (create_jsonl_data json_dict ! i))
        = insert ''id'' (\<Union>r \<in> set (take (Suc i) json_dict). set (keys (snd r)))
    \<and> (\<forall>j k. j < i \<and> k \<noteq> ''id'' \<and> distinct (keys (snd (json_dict ! j)))
          \<and> k \<in> set (keys (snd (json_dict ! j)))
          \<and> (\<forall>l. j < l \<and> l \<le> i \<longrightarrow> k \<notin> set (keys (snd (json_dict ! l))))
        \<longrightarrow> map_of (create_jsonl_data json_dict ! i) k = map_of (snd (json_dict ! j)) k)
    \<and> (set (keys (create_jsonl_data json_dict ! i)) = insert ''id'' (set (keys (snd (json_dict ! i))))
        \<longleftrightarrow> (\<forall>j < i. set (keys (snd (json_dict ! j)))
                        \<subseteq> insert ''id'' (set (keys (snd (json_dict ! i))))))"
proof -
  let ?line = "create_jsonl_data json_dict ! i"
  have line: "?line = foldl fill_obj [] (take (Suc i) json_dict)"
    using assms by (simp add: create_jsonl_data_def write_rows_nth)
  have len: "length (create_jsonl_data json_dict) = length json_dict"
    by (simp add: create_jsonl_data_def length_write_rows)
  have "take (Suc i) json_dict \<noteq> []" using assms by auto
  then have fields: "set (keys ?line)
      = insert ''id'' (\<Union>r \<in> set (take (Suc i) json_dict). set (keys (snd r)))"
    by (simp add: line keys_foldl_fill keys_simps)
  have leak: "map_of ?line k = map_of (snd (json_dict ! j)) k"
    if h: "j < i" "k \<noteq> ''id''" "distinct (keys (snd (json_dict ! j)))"
      "k \<in> set (keys (snd (json_dict ! j)))"
      "\<forall>l. j < l \<and> l \<le> i \<longrightarrow> k \<notin> set (keys (snd (json_dict ! l)))" for j k
  proof -
    obtain idx dd where row: "json_dict ! j = (idx, dd)" by (cases "json_dict ! j")
    have "map_of ?line k = map_of (fill_obj (foldl fill_obj [] (take j json_dict)) (json_dict ! j)) k"
      unfolding line using h(1) assms h(2) h(5) by (rule foldl_fill_between)
    also have "\<dots> = map_of (rev dd) k" using h(4) by (simp add: row map_of_fill_obj)
    also have "\<dots> = map_of dd k" using h(3) by (simp add: row keys_def map_of_rev_distinct)
    finally show ?thesis by (simp add: row)
  qed
  obtain idx_i dd_i where row_i: "json_dict ! i = (idx_i, dd_i)" by (cases "json_dict ! i")
  have "take (Suc i) json_dict = take i json_dict @ [json_dict ! i]"
    using assms by (simp add: take_Suc_conv_app_nth)
  then have last_step: "?line = fill_obj (foldl fill_obj [] (take i json_dict)) (idx_i, dd_i)"
    unfolding line by (simp add: row_i)
  have own_id: "map_of ?line ''id'' = Some (JStr (fst (json_dict ! i)))"
    if "''id'' \<notin> set (keys (snd (json_dict ! i)))"
    using that unfolding last_step by (simp add: map_of_fill_obj row_i)
  have own: "map_of ?line k = map_of (snd (json_dict ! i)) k"
    if "k \<in> set (keys (snd (json_dict ! i))) \<and> distinct (keys (snd (json_dict ! i)))" for k
  proof -
    from that have "map_of ?line k = map_of (rev dd_i) k"
      unfolding last_step by (simp add: map_of_fill_obj row_i)
    also have "\<dots> = map_of dd_i k" using that by (simp add: row_i keys_def map_of_rev_distinct)
    finally show ?thesis by (simp add: row_i)
  qed
  have "set (take (Suc i) json_dict) = (!) json_dict ` {0..<Suc i}"
    using assms by (simp only: nth_image Suc_leI)
  then have fields': "set (keys ?line)
      = insert ''id'' (\<Union>j \<in> {0..<Suc i}. set (keys (snd (json_dict ! j))))"
    unfolding fields by simp
  have same: "set (keys ?line) = insert ''id'' (set (keys (snd (json_dict ! i))))
      \<longleftrightarrow> (\<forall>j < i. set (keys (snd (json_dict ! j)))
                      \<subseteq> insert ''id'' (set (keys (snd (json_dict ! i)))))"
    unfolding fields' by (rule insert_UN_upto)
  show ?thesis
  proof (intro conjI allI impI)
    show "length (create_jsonl_data json_dict) = length json_dict" by (rule len)
    show "map_of ?line ''id'' = Some (JStr (fst (json_dict ! i)))"
      if "''id'' \<notin> set (keys (snd (json_dict ! i)))"
      using that by (rule own_id)
    show "map_of ?line k = map_of (snd (json_dict ! i)) k"
      if "k \<in> set (keys (snd (json_dict ! i))) \<and> distinct (keys (snd (json_dict ! i)))" for k
      using that by (rule own)
    show "set (keys ?line) = insert ''id'' (\<Union>r \<in> set (take (Suc i) json_dict). set (keys (snd r)))"
      by (rule fields)
    show "map_of ?line k = map_of (snd (json_dict ! j)) k"
      if "j < i \<and> k \<noteq> ''id'' \<and> distinct (keys (snd (json_dict ! j)))
          \<and> k \<in> set (keys (snd (json_dict ! j)))
          \<and> (\<forall>l. j < l \<and> l \<le> i \<longrightarrow> k \<notin> set (keys (snd (json_dict ! l))))" for j k
      using that leak[of j k] by blast
    show "set (keys ?line) = insert ''id'' (set (keys (snd (json_dict ! i))))
      \<longleftrightarrow> (\<forall>j < i. set (keys (snd (json_dict ! j)))
                      \<subseteq> insert ''id'' (set (keys (snd (json_dict ! i)))))"
      by (rule same)
  qed
qed

theorem create_jsonl_data_fields_witness:
  "(1::nat) < length [(''0'', [(''a'', JInt 1)]), (''1'', [])]
   \<and> map_of (create_jsonl_data [(''0'', [(''a'', JInt 1)]), (''1'', [])] ! 1) ''a'' = Some (JInt 1)
   \<and> set (keys (create_jsonl_data [(''0'', [(''a'', JInt 1)]), (''1'', [])] ! 1)) = {''id'', ''a''}
   \<and> map_of (create_jsonl_data [(''0'', [(''a'', JInt 1)]), (''1'', [])] ! 1) ''id''
       = Some (JStr ''1'')"
proof -
  let ?D = "[(''0'', [(''a'', JInt 1)]), (''1'', [])] :: (string, (string, json) pydict) pydict"
  have h: "1 < length ?D" by simp
  have l1: "l = 1" if "0 < l \<and> l \<le> 1" for l :: nat using that by arith
  have pre: "(0::nat) < 1 \<and> ''a'' \<noteq> ''id'' \<and> distinct (keys (snd (?D ! 0)))
      \<and> ''a'' \<in> set (keys (snd (?D ! 0)))
      \<and> (\<forall>l. 0 < l \<and> l \<le> 1 \<longrightarrow> ''a'' \<notin> set (keys (snd (?D ! l))))"
  proof (intro conjI allI impI)
    fix l :: nat assume "0 < l \<and> l \<le> 1"
    then have "l = 1" by (rule l1)
    then show "''a'' \<notin> set (keys (snd (?D ! l)))" by (simp add: keys_def)
  qed (simp_all add: keys_def)
  note t = create_jsonl_data_fields [OF h]
  from t have every: "\<forall>j k. j < 1 \<and> k \<noteq> ''id'' \<and> distinct (keys (snd (?D ! j)))
          \<and> k \<in> set (keys (snd (?D ! j)))
          \<and> (\<forall>l. j < l \<and> l \<le> 1 \<longrightarrow> k \<notin> set (keys (snd (?D ! l))))
        \<longrightarrow> map_of (create_jsonl_data ?D ! 1) k = map_of (snd (?D ! j)) k"
    by (elim conjE)
  have a: "map_of (create_jsonl_data ?D ! 1) ''a'' = map_of (snd (?D ! 0)) ''a''"
    by (rule every [rule_format, OF pre])
  from t have b: "set (keys (create_jsonl_data ?D ! 1))
      = insert ''id'' (\<Union>r \<in> set (take (Suc 1) ?D). set (keys (snd r)))"
    by (elim conjE)
  have c: "map_of (snd (?D ! 0)) ''a'' = Some (JInt 1)" by simp
  have d: "insert ''id'' (\<Union>r \<in> set (take (Suc 1) ?D). set (keys (snd r))) = {''id'', ''a''}"
    by (simp add: keys_def)
  from t have "''id'' \<notin> set (keys (snd (?D ! 1)))
      \<longrightarrow> map_of (create_jsonl_data ?D ! 1) ''id'' = Some (JStr (fst (?D ! 1)))"
    by (elim conjE)
  moreover have "''id'' \<notin> set (keys (snd (?D ! 1)))" by (simp add: keys_def)
  ultimately have "map_of (create_jsonl_data ?D ! 1) ''id'' = Some (JStr (fst (?D ! 1)))" by (rule mp)
  moreover have "fst (?D ! 1) = ''1''" by simp
  ultimately have e: "map_of (create_jsonl_data ?D ! 1) ''id'' = Some (JStr ''1'')" by (simp only:)
  have abcd: "(1::nat) < length ?D
   \<and> map_of (create_jsonl_data ?D ! 1) ''a'' = Some (JInt 1)
   \<and> set (keys (create_jsonl_data ?D ! 1)) = {''id'', ''a''}"
    using h a b c d by (simp only:)
  with e show ?thesis by (intro conjI) (elim conjE, assumption)+
qed

section \<open>Properties of the split\<close>

lemma mset_map_nth_perm:
  assumes "mset p = mset [0 ..< length xs]"
  shows "mset (map (\<lambda>i. xs ! i) p) = mset xs"
proof -
  have "mset (map (\<lambda>i. xs ! i) p) = image_mset (\<lambda>i. xs ! i) (mset p)" by simp
  also have "\<dots> = image_mset (\<lambda>i. xs ! i) (mset [0 ..< length xs])" by (simp only: assms)
  also have "\<dots> = mset (map (\<lambda>i. xs ! i) [0 ..< length xs])" by simp
  also have "\<dots> = mset xs" by (simp only: map_nth)
  finally show ?thesis .
qed

lemma perm_facts:
  assumes "mset p = mset [0 ..< n]"
  shows "length p = n" "set p = {0 ..< n}" "list_all (\<lambda>i. i < n) (take k p)"
    "list_all (\<lambda>i. i < n) (take j (drop k p))"
proof -
  from assms have "size (mset p) = size (mset [0 ..< n])" by simp
  then show "length p = n" by simp
  from assms have "set_mset (mset p) = set_mset (mset [0 ..< n])" by simp
  then show s: "set p = {0 ..< n}" by simp
  then show "list_all (\<lambda>i. i < n) (take k p)" "list_all (\<lambda>i. i < n) (take j (drop k p))"
    by (auto simp: list_all_iff dest!: in_set_takeD in_set_dropD)
qed

lemma train_test_split_Inr:
  assumes ok: "lib_ok lib"
    and res: "train_test_split lib ambient df test_size (Some seed) = Inr ((train, test), ambient')"
  shows "mset (rows train) + mset (rows test) = mset (rows df)"
    and "length (rows test) = (length (rows df) * fst test_size + snd test_size - 1) div snd test_size"
    and "length (rows train) = length (rows df) - length (rows test)"
    and "0 < length (rows train)"
    and "columns train = columns df" and "columns test = columns df" and "ambient' = ambient"
proof -
  let ?n = "length (rows df)"
  let ?n_test = "(?n * fst test_size + snd test_size - 1) div snd test_size"
  let ?p = "fst (permutation lib (seeded lib seed) ?n)"
  have p: "mset ?p = mset [0 ..< ?n]" using ok by (simp add: lib_ok_def)
  note pf = perm_facts[OF p]
  have pos: "?n - ?n_test \<noteq> 0"
    using res by (auto simp: train_test_split_def Let_def split: if_splits)
  have tr: "iloc df (take j (drop k ?p)) = Inr (df\<lparr>rows := map (\<lambda>i. rows df ! i) (take j (drop k ?p))\<rparr>)"
    for j k using pf(4) by (simp add: iloc_def)
  have te: "iloc df (take k ?p) = Inr (df\<lparr>rows := map (\<lambda>i. rows df ! i) (take k ?p)\<rparr>)"
    for k using pf(3) by (simp add: iloc_def)
  define nt where "nt = ?n_test"
  define p where "p = ?p"
  have eq: "train = df\<lparr>rows := map (\<lambda>i. rows df ! i) (take (?n - nt) (drop nt p))\<rparr>"
      "test = df\<lparr>rows := map (\<lambda>i. rows df ! i) (take nt p)\<rparr>" "ambient' = ambient"
    using res pos unfolding train_test_split_def Let_def nt_def p_def by (simp_all add: tr te)
  have pos': "nt < ?n" using pos unfolding nt_def by simp
  have len: "length p = ?n" using pf(1) by (simp add: p_def)
  have p': "mset p = mset [0 ..< ?n]" using p by (simp add: p_def)
  have full: "take (?n - nt) (drop nt p) = drop nt p" using len by simp
  have "mset (rows train) + mset (rows test)
      = mset (map (\<lambda>i. rows df ! i) (drop nt p)) + mset (map (\<lambda>i. rows df ! i) (take nt p))"
    unfolding eq full by simp
  also have "\<dots> = mset (map (\<lambda>i. rows df ! i) (take nt p @ drop nt p))"
    by (simp only: map_append mset_append add.commute)
  also have "\<dots> = mset (rows df)"
    by (simp only: append_take_drop_id mset_map_nth_perm[OF p'])
  finally show "mset (rows train) + mset (rows test) = mset (rows df)" .
  show "length (rows test) = ?n_test" using pos' len unfolding eq by (simp add: nt_def)
  then show "length (rows train) = length (rows df) - length (rows test)"
    using len unfolding eq by (simp add: nt_def)
  show "0 < length (rows train)" using pos' len unfolding eq by simp
  show "columns train = columns df" "columns test = columns df" "ambient' = ambient"
    by (simp_all add: eq)
qed


lemma load_table_rows:
  "map fst (rows (load_table header body)) = [0 ..< length body]"
  "length (rows (load_table header body)) = length body"
  by (simp_all add: load_table_def)

lemma split_frame_Inr:
  assumes "split_frame lib ambient df = Inr ((train, val, test), ambient')"
  obtains train1 a1 where
    "train_test_split lib ambient df (1, 5) (Some 1) = Inr ((train1, test), a1)"
    "train_test_split lib a1 train1 (1, 4) (Some 1) = Inr ((train, val), ambient')"
  using assms unfolding split_frame_def by (auto split: sum.splits)

lemma train_test_split_ambient:
  "map_sum id fst (train_test_split lib g1 df ts (Some s))
     = map_sum id fst (train_test_split lib g2 df ts (Some s))"
  unfolding train_test_split_def Let_def by (simp split: sum.splits)

lemma train_test_split_seeded_state:
  "train_test_split lib g df ts (Some s) = Inr (r, g') \<Longrightarrow> g' = g"
  unfolding train_test_split_def Let_def by (auto split: sum.splits if_splits)

lemma train_test_split_succeeds:
  assumes ok: "lib_ok lib"
    and lt: "(length (rows df) * fst test_size + snd test_size - 1) div snd test_size < length (rows df)"
  shows "\<exists>train test. train_test_split lib ambient df test_size (Some seed) = Inr ((train, test), ambient)"
proof -
  let ?n = "length (rows df)"
  let ?p = "fst (permutation lib (seeded lib seed) ?n)"
  have p: "mset ?p = mset [0 ..< ?n]" using ok by (simp add: lib_ok_def)
  note pf = perm_facts[OF p]
  have tr: "iloc df (take j (drop k ?p)) = Inr (df\<lparr>rows := map (\<lambda>i. rows df ! i) (take j (drop k ?p))\<rparr>)"
    for j k using pf(4) by (simp add: iloc_def)
  have te: "iloc df (take k ?p) = Inr (df\<lparr>rows := map (\<lambda>i. rows df ! i) (take k ?p)\<rparr>)"
    for k using pf(3) by (simp add: iloc_def)
  show ?thesis using lt unfolding train_test_split_def Let_def by (simp add: tr te)
qed

lemma split_frame_succeeds:
  assumes ok: "lib_ok lib" and n: "3 \<le> length (rows df)"
  shows "\<exists>train val test. split_frame lib ambient df = Inr ((train, val, test), ambient)"
proof -
  have "(length (rows df) * fst (1::nat, 5::nat) + snd (1::nat, 5::nat) - 1) div snd (1::nat, 5::nat)
      < length (rows df)" using n by simp
  from train_test_split_succeeds[OF ok this] obtain train1 test where
    s1: "train_test_split lib ambient df (1, 5) (Some 1) = Inr ((train1, test), ambient)" by blast
  note f1 = train_test_split_Inr[OF ok s1]
  have "2 \<le> length (rows train1)" using f1(2,3) n by simp
  then have "(length (rows train1) * fst (1::nat, 4::nat) + snd (1::nat, 4::nat) - 1) div snd (1::nat, 4::nat)
      < length (rows train1)" by simp
  from train_test_split_succeeds[OF ok this] obtain train val where
    s2: "train_test_split lib ambient train1 (1, 4) (Some 1) = Inr ((train, val), ambient)" by blast
  show ?thesis unfolding split_frame_def s1 sum.case prod.case s2 by blast
qed

text \<open>
  C1. For a table as loaded by the script and a library whose shuffles are permutations,
  whenever the two-stage split returns, the three partitions together hold exactly the
  rows of the table, each once: their index labels are pairwise disjoint, their union is
  the table and their sizes add up to its size. The test partition has \<open>ceil(n / 5)\<close>
  rows, the validation partition \<open>ceil\<close> of a quarter of the rest and the train partition
  what remains; for \<open>n = 5 m\<close> that is \<open>3 m\<close>, \<open>m\<close> and \<open>m\<close> rows: 60/20/20.
\<close>

theorem split_frame_partition:
  assumes "lib_ok lib"
    and "split_frame lib ambient (load_table header body) = Inr ((train, val, test), ambient')"
  shows "mset (rows train) + mset (rows val) + mset (rows test) = mset (rows (load_table header body))
    \<and> distinct (map fst (rows train @ rows val @ rows test))
    \<and> set (map fst (rows train)) \<inter> set (map fst (rows val)) = {}
    \<and> set (map fst (rows train)) \<inter> set (map fst (rows test)) = {}
    \<and> set (map fst (rows val)) \<inter> set (map fst (rows test)) = {}
    \<and> set (rows train) \<union> set (rows val) \<union> set (rows test) = set (rows (load_table header body))
    \<and> length (rows train) + length (rows val) + length (rows test) = length body
    \<and> length (rows test) = (length body + 4) div 5
    \<and> length (rows val) = (length body - length (rows test) + 3) div 4
    \<and> length (rows train) = length body - length (rows test) - length (rows val)
    \<and> (\<forall>m. length body = 5 * m \<longrightarrow>
          length (rows train) = 3 * m \<and> length (rows val) = m \<and> length (rows test) = m)"
proof -
  let ?T = "load_table header body"
  from assms(2) obtain train1 a1 where
    s1: "train_test_split lib ambient ?T (1, 5) (Some 1) = Inr ((train1, test), a1)" and
    s2: "train_test_split lib a1 train1 (1, 4) (Some 1) = Inr ((train, val), ambient')"
    by (rule split_frame_Inr)
  note f1 = train_test_split_Inr[OF assms(1) s1]
  note f2 = train_test_split_Inr[OF assms(1) s2]
  have ms: "mset (rows train) + mset (rows val) + mset (rows test) = mset (rows ?T)"
    using f1(1) f2(1) by simp
  then have "mset (rows train @ rows val @ rows test) = mset (rows ?T)" by (simp add: ac_simps)
  then have "mset (map fst (rows train @ rows val @ rows test)) = mset (map fst (rows ?T))"
    by (metis mset_map)
  then have "mset (map fst (rows train @ rows val @ rows test)) = mset [0 ..< length body]"
    by (simp only: load_table_rows)
  then have dist: "distinct (map fst (rows train @ rows val @ rows test))"
    by (metis distinct_upt mset_eq_imp_distinct_iff)
  then have disj: "set (map fst (rows train)) \<inter> set (map fst (rows val)) = {}"
      "set (map fst (rows train)) \<inter> set (map fst (rows test)) = {}"
      "set (map fst (rows val)) \<inter> set (map fst (rows test)) = {}"
    by auto
  have un: "set (rows train) \<union> set (rows val) \<union> set (rows test) = set (rows ?T)"
    using ms by (metis set_mset_mset set_mset_union)
  have l_test: "length (rows test) = (length body + 4) div 5"
    using f1(2) by (simp add: load_table_rows)
  have l_train1: "length (rows train1) = length body - length (rows test)"
    using f1(3) by (simp add: load_table_rows)
  have l_val: "length (rows val) = (length body - length (rows test) + 3) div 4"
    using f2(2) l_train1 by simp
  have l_train: "length (rows train) = length body - length (rows test) - length (rows val)"
    using f2(3) l_train1 by simp
  have total: "length (rows train) + length (rows val) + length (rows test) = length body"
    using ms by (metis length_append load_table_rows(2) mset_append size_mset)
  have fifths: "length (rows train) = 3 * m \<and> length (rows val) = m \<and> length (rows test) = m"
    if "length body = 5 * m" for m
    using that l_test l_val l_train by simp
  from ms dist disj un total l_test l_val l_train fifths show ?thesis by blast
qed

theorem split_frame_partition_witness:
  "lib_ok example_lib
   \<and> split_frame example_lib 0
         (load_table [''Filename''] [[JStr ''a''], [JStr ''b''], [JStr ''c''], [JStr ''d''], [JStr ''e'']])
       = Inr ((\<lparr>columns = [''img''], rows = [(1, [JStr ''b'']), (2, [JStr ''c'']), (3, [JStr ''d''])]\<rparr>,
               \<lparr>columns = [''img''], rows = [(0, [JStr ''a''])]\<rparr>,
               \<lparr>columns = [''img''], rows = [(4, [JStr ''e''])]\<rparr>), 0)
   \<and> mset [(1, [JStr ''b'']), (2, [JStr ''c'']), (3, [JStr ''d''])] + mset [(0, [JStr ''a''])]
         + mset [(4, [JStr ''e''])]
       = mset (rows (load_table [''Filename'']
                [[JStr ''a''], [JStr ''b''], [JStr ''c''], [JStr ''d''], [JStr ''e'']]))"
proof -
  let ?T = "load_table [''Filename''] [[JStr ''a''], [JStr ''b''], [JStr ''c''], [JStr ''d''], [JStr ''e'']]"
  let ?train = "\<lparr>columns = [''img''], rows = [(1, [JStr ''b'']), (2, [JStr ''c'']), (3, [JStr ''d''])]\<rparr>"
  let ?val = "\<lparr>columns = [''img''], rows = [(0, [JStr ''a''])]\<rparr>"
  let ?test = "\<lparr>columns = [''img''], rows = [(4, [JStr ''e''])]\<rparr>"
  have ok: "lib_ok example_lib" by (simp add: lib_ok_def example_lib_def)
  have run: "split_frame example_lib 0 ?T = Inr ((?train, ?val, ?test), 0)" by code_simp
  from split_frame_partition [OF ok run]
  have "mset (rows ?train) + mset (rows ?val) + mset (rows ?test) = mset (rows ?T)" by (elim conjE)
  then show ?thesis using ok run by simp
qed

text \<open>
  C8. The split does not depend on the run: the script passes \<open>random_state=1\<close> to both
  calls, so each draws from a generator freshly seeded with 1 and never from the ambient
  generator of the process. Two runs on the same table with the same library, whatever
  state the ambient generator is in, return the same partitions or fail alike.
\<close>

theorem split_frame_deterministic:
  "map_sum id fst (split_frame lib ambient1 df) = map_sum id fst (split_frame lib ambient2 df)"
proof (cases "train_test_split lib ambient1 df (1, 5) (Some 1)")
  case (Inl e)
  with train_test_split_ambient[of lib ambient1 df "(1, 5)" 1 ambient2]
  have "train_test_split lib ambient2 df (1, 5) (Some 1) = Inl e"
    by (cases "train_test_split lib ambient2 df (1, 5) (Some 1)") auto
  with Inl show ?thesis by (simp add: split_frame_def)
next
  case (Inr r)
  obtain train test a1 where r: "r = ((train, test), a1)" by (metis prod.collapse)
  with train_test_split_ambient[of lib ambient1 df "(1, 5)" 1 ambient2] Inr
  obtain a2 where r2: "train_test_split lib ambient2 df (1, 5) (Some 1) = Inr ((train, test), a2)"
    by (cases "train_test_split lib ambient2 df (1, 5) (Some 1)") auto
  have "map_sum id fst (train_test_split lib a1 train (1, 4) (Some 1))
      = map_sum id fst (train_test_split lib a2 train (1, 4) (Some 1))"
    by (rule train_test_split_ambient)
  then show ?thesis using Inr r r2
    by (cases "train_test_split lib a1 train (1, 4) (Some 1)";
        cases "train_test_split lib a2 train (1, 4) (Some 1)")
       (auto simp: split_frame_def)
qed

section \<open>Properties of the export\<close>

lemma split_frame_rows:
  assumes "lib_ok lib" and "split_frame lib ambient df = Inr ((train, val, test), ambient')"
  shows "mset (rows train @ rows val @ rows test) = mset (rows df)"
    and "columns train = columns df" "columns val = columns df" "columns test = columns df"
proof -
  from assms(2) obtain train1 a1 where
    s1: "train_test_split lib ambient df (1, 5) (Some 1) = Inr ((train1, test), a1)" and
    s2: "train_test_split lib a1 train1 (1, 4) (Some 1) = Inr ((train, val), ambient')"
    by (rule split_frame_Inr)
  note f1 = train_test_split_Inr[OF assms(1) s1]
  note f2 = train_test_split_Inr[OF assms(1) s2]
  show "mset (rows train @ rows val @ rows test) = mset (rows df)"
    using f1(1) f2(1) by (simp add: ac_simps)
  show "columns train = columns df" "columns val = columns df" "columns test = columns df"
    using f1(5,6) f2(5,6) by simp_all
qed

lemma str_nat_nonempty: "str_nat n \<noteq> []"
  by (subst str_nat.simps) simp

lemma digit_inj: "a < 10 \<Longrightarrow> b < 10 \<Longrightarrow> ''0123456789'' ! a = ''0123456789'' ! b \<Longrightarrow> a = b"
proof -
  assume a: "a < 10" and b: "b < 10" and e: "''0123456789'' ! a = ''0123456789'' ! b"
  have "distinct ''0123456789''" by simp
  with a b e show "a = b" by (simp add: nth_eq_iff_index_eq)
qed

lemma str_nat_inj: "str_nat n = str_nat m \<Longrightarrow> n = m"
proof (induction n arbitrary: m rule: str_nat.induct)
  case (1 n)
  show ?case
  proof (cases "n < 10")
    case True
    then have sn: "str_nat n = [''0123456789'' ! n]" by (subst str_nat.simps) simp
    show ?thesis
    proof (cases "m < 10")
      case m: True
      then have "str_nat m = [''0123456789'' ! m]" by (subst str_nat.simps) simp
      with sn "1.prems" have "''0123456789'' ! n = ''0123456789'' ! m" by simp
      with True m show ?thesis by (rule digit_inj)
    next
      case False
      then have "str_nat m = str_nat (m div 10) @ [''0123456789'' ! (m mod 10)]"
        by (subst str_nat.simps) simp
      with sn "1.prems" have "str_nat (m div 10) = []" by simp
      with str_nat_nonempty show ?thesis by blast
    qed
  next
    case False
    then have sn: "str_nat n = str_nat (n div 10) @ [''0123456789'' ! (n mod 10)]"
      by (subst str_nat.simps) simp
    show ?thesis
    proof (cases "m < 10")
      case True
      then have "str_nat m = [''0123456789'' ! m]" by (subst str_nat.simps) simp
      with sn "1.prems" have "str_nat (n div 10) = []" by simp
      with str_nat_nonempty show ?thesis by blast
    next
      case m: False
      then have "str_nat m = str_nat (m div 10) @ [''0123456789'' ! (m mod 10)]"
        by (subst str_nat.simps) simp
      with sn "1.prems" have e: "str_nat (n div 10) = str_nat (m div 10)"
        "''0123456789'' ! (n mod 10) = ''0123456789'' ! (m mod 10)" by simp_all
      from "1.IH"[OF False e(1)] have d: "n div 10 = m div 10" .
      have "n mod 10 = m mod 10" by (rule digit_inj[OF _ _ e(2)]) simp_all
      with d show ?thesis by (metis div_mult_mod_eq)
    qed
  qed
qed

lemma write_rows_uniform:
  assumes "distinct cols" "''id'' \<notin> set cols" "\<forall>r \<in> set rs. map fst (snd r) = cols"
    "set (keys obj) \<subseteq> insert ''id'' (set cols)"
    and E: "\<And>r. E r = (map_of (snd r))(''id'' \<mapsto> JStr (fst r))"
  shows "map map_of (write_rows obj rs) = map E rs"
  using assms(3,4)
proof (induction rs arbitrary: obj)
  case Nil
  then show ?case by simp
next
  case (Cons r rs)
  obtain idx dd where r: "r = (idx, dd)" by (cases r)
  have kd: "keys dd = cols" using Cons.prems(1) by (simp add: r keys_def)
  have dd: "map_of (rev dd) = map_of dd"
    using kd assms(1) by (simp add: map_of_rev_distinct keys_def)
  have one: "map_of (fill_obj obj r) = (map_of dd)(''id'' \<mapsto> JStr idx)"
  proof
    fix k
    show "map_of (fill_obj obj r) k = ((map_of dd)(''id'' \<mapsto> JStr idx)) k"
    proof (cases "k \<in> set cols")
      case True
      with assms(2) have "k \<noteq> ''id''" by auto
      with True show ?thesis by (simp add: r map_of_fill_obj kd dd)
    next
      case False
      then have "k \<notin> set (map fst dd)" using kd by (simp add: keys_def)
      then have "map_of dd k = None" by (simp add: map_of_eq_None_iff)
      moreover have "k \<noteq> ''id'' \<Longrightarrow> map_of obj k = None"
        using False Cons.prems(2) by (auto simp: map_of_eq_None_iff keys_def)
      ultimately show ?thesis using False by (simp add: r map_of_fill_obj kd)
    qed
  qed
  have "map map_of (write_rows (fill_obj obj r) rs) = map E rs"
  proof (rule Cons.IH)
    show "\<forall>r \<in> set rs. map fst (snd r) = cols" using Cons.prems(1) by simp
    show "set (keys (fill_obj obj r)) \<subseteq> insert ''id'' (set cols)"
      using Cons.prems(2) by (auto simp: r keys_fill_obj kd)
  qed
  moreover have "E r = (map_of dd)(''id'' \<mapsto> JStr idx)" by (simp only: E r fst_conv snd_conv)
  ultimately show ?case using one by (simp add: Let_def)
qed

lemma to_json_index_records:
  assumes "to_json_index df = Inr json_dict" "''id'' \<notin> set (columns df)"
    "\<forall>row \<in> set (rows df). length (snd row) = length (columns df)"
  shows "map map_of (create_jsonl_data json_dict) = map (expected_record (columns df)) (rows df)"
proof -
  from assms(1) have d: "distinct (columns df)"
    and j: "json_dict = map (\<lambda>(i, cells). (str_nat i, zip (columns df) cells)) (rows df)"
    by (auto simp: to_json_index_def split: if_splits)
  have u: "\<forall>r \<in> set json_dict. map fst (snd r) = columns df"
    using assms(3) unfolding j by auto
  define E :: "string \<times> (string, json) pydict \<Rightarrow> (string \<rightharpoonup> json)"
    where "E = (\<lambda>r. (map_of (snd r))(''id'' \<mapsto> JStr (fst r)))"
  have "map map_of (create_jsonl_data json_dict) = map E json_dict"
    unfolding create_jsonl_data_def
    by (rule write_rows_uniform[OF d assms(2) u]) (simp_all add: keys_def E_def)
  also have "\<dots> = map (expected_record (columns df)) (rows df)"
    unfolding j by (simp add: expected_record_def case_prod_beta E_def)
  finally show ?thesis .
qed

lemma process_file_Inr:
  assumes "process_file lib ambient fs (name, df) = Inr (fs', ambient')"
  obtains train val test jtrain jval jtest where
    "split_frame lib ambient df = Inr ((train, val, test), ambient')"
    "to_json_index train = Inr jtrain" "to_json_index val = Inr jval" "to_json_index test = Inr jtest"
    "fs' (path_join JSON_DIR (name @ ''_train.jsonl'')) = Some (JsonlFile (create_jsonl_data jtrain))"
    "fs' (path_join JSON_DIR (name @ ''_val.jsonl'')) = Some (JsonlFile (create_jsonl_data jval))"
    "fs' (path_join JSON_DIR (name @ ''_test.jsonl'')) = Some (JsonlFile (create_jsonl_data jtest))"
proof -
  from assms obtain train val test where
    s: "split_frame lib ambient df = Inr ((train, val, test), ambient')"
    unfolding process_file_def by (auto simp: Let_def split: sum.splits)
  from assms s obtain jtrain jval jtest where
    j: "to_json_index train = Inr jtrain" "to_json_index val = Inr jval" "to_json_index test = Inr jtest"
    unfolding process_file_def by (auto simp: Let_def split: sum.splits)
  have fs': "fs' = write_jsonl (write_jsonl (write_jsonl
        (create_csv_data (create_csv_data (create_csv_data fs CSV_DIR (name @ ''_train.csv'') train)
           CSV_DIR (name @ ''_val.csv'') val) CSV_DIR (name @ ''_test.csv'') test)
        JSON_DIR (name @ ''_train.jsonl'') jtrain) JSON_DIR (name @ ''_val.jsonl'') jval)
        JSON_DIR (name @ ''_test.jsonl'') jtest"
    using assms s j unfolding process_file_def by (simp add: Let_def)
  have "fs' (path_join JSON_DIR (name @ ''_train.jsonl'')) = Some (JsonlFile (create_jsonl_data jtrain))"
    "fs' (path_join JSON_DIR (name @ ''_val.jsonl'')) = Some (JsonlFile (create_jsonl_data jval))"
    "fs' (path_join JSON_DIR (name @ ''_test.jsonl'')) = Some (JsonlFile (create_jsonl_data jtest))"
    unfolding fs' by (simp_all add: write_jsonl_def path_join_def)
  with s j that show thesis by blast
qed

lemma ids_of_records:
  assumes "map map_of ls = map (expected_record cols) rs"
  shows "map id_of ls = map (\<lambda>row. Some (JStr (str_nat (fst row)))) rs"
proof -
  have "map id_of ls = map (\<lambda>m. m ''id'') (map map_of ls)"
    by (simp add: id_of_def)
  also have "\<dots> = map (\<lambda>m. m ''id'') (map (expected_record cols) rs)" by (simp only: assms)
  also have "\<dots> = map (\<lambda>row. Some (JStr (str_nat (fst row)))) rs"
    by (simp add: expected_record_def)
  finally show ?thesis .
qed

text \<open>
  C7, as stated, fails on the value of \<open>id\<close>. The index reaches \<open>create_jsonl_data\<close> as a
  key of \<open>json.loads(df.to_json(orient="index"))\<close>, which is a string: the record of the row
  with index 1 has \<open>id\<close> equal to the string \<open>"1"\<close>, not the integer 1. And the row's own
  cells are written into the record after \<open>id\<close>: in a table with a column named \<open>id\<close> the
  field holds that column's cell (here 8 for the row with index 1).
\<close>

theorem jsonl_ids_counterexample:
  "written_file (process_file example_lib 0 Map.empty
       (''f'', load_table [''Filename'', ''Label'', ''LabelText'']
          [[JStr ''a.png'', JInt 0, JStr ''x''], [JStr ''b.png'', JInt 1, JStr ''y''],
           [JStr ''c.png'', JInt 0, JStr ''z'']]))
     ''json/f_train.jsonl''
     = Some (JsonlFile [[(''id'', JStr ''1''), (''img'', JStr ''b.png''), (''label'', JInt 1),
                         (''text'', JStr ''y'')]])
   \<and> JStr ''1'' \<noteq> JInt 1
   \<and> written_file (process_file example_lib 0 Map.empty
       (''g'', load_table [''id'', ''Filename'']
          [[JInt 7, JStr ''a.png''], [JInt 8, JStr ''b.png''], [JInt 9, JStr ''c.png'']]))
     ''json/g_train.jsonl''
     = Some (JsonlFile [[(''id'', JInt 8), (''img'', JStr ''b.png'')]])"
  by code_simp

text \<open>
  C7, amended. For a table as loaded by the script, with as many cells in every row as
  there are columns and no column named \<open>id\<close> after the renaming, and a library whose
  shuffles are permutations: when the loop body returns, each of the three line-delimited
  files holds, row for row of its partition, the row's cells by column name and \<open>id\<close> equal
  to the decimal string of the row's index label in the table as loaded. The rows of the
  three partitions are the rows of the table with their original labels, so the \<open>id\<close>
  values over the three files are pairwise different and are exactly the decimal strings
  of \<open>0, ..., |T| - 1\<close>: no counter is restarted per partition.
\<close>

theorem jsonl_ids:
  assumes "lib_ok lib"
    and "list_all (\<lambda>cells. length cells = length header) body"
    and "''id'' \<notin> set (map rename_column header)"
    and "process_file lib ambient fs (name, load_table header body) = Inr (fs', ambient')"
  shows "\<exists>train val test ltrain lval ltest.
      split_frame lib ambient (load_table header body) = Inr ((train, val, test), ambient')
    \<and> fs' (path_join JSON_DIR (name @ ''_train.jsonl'')) = Some (JsonlFile ltrain)
    \<and> fs' (path_join JSON_DIR (name @ ''_val.jsonl'')) = Some (JsonlFile lval)
    \<and> fs' (path_join JSON_DIR (name @ ''_test.jsonl'')) = Some (JsonlFile ltest)
    \<and> map map_of ltrain = map (expected_record (map rename_column header)) (rows train)
    \<and> map map_of lval = map (expected_record (map rename_column header)) (rows val)
    \<and> map map_of ltest = map (expected_record (map rename_column header)) (rows test)
    \<and> set (rows train @ rows val @ rows test) = set (zip [0 ..< length body] body)
    \<and> map id_of (ltrain @ lval @ ltest)
        = map (\<lambda>row. Some (JStr (str_nat (fst row)))) (rows train @ rows val @ rows test)
    \<and> distinct (map id_of (ltrain @ lval @ ltest))
    \<and> set (map id_of (ltrain @ lval @ ltest)) = (\<lambda>i. Some (JStr (str_nat i))) ` {0 ..< length body}"
proof -
  let ?T = "load_table header body"
  let ?cols = "map rename_column header"
  from assms(4) obtain train val test jtrain jval jtest where
    s: "split_frame lib ambient ?T = Inr ((train, val, test), ambient')" and
    j: "to_json_index train = Inr jtrain" "to_json_index val = Inr jval" "to_json_index test = Inr jtest" and
    f: "fs' (path_join JSON_DIR (name @ ''_train.jsonl'')) = Some (JsonlFile (create_jsonl_data jtrain))"
       "fs' (path_join JSON_DIR (name @ ''_val.jsonl'')) = Some (JsonlFile (create_jsonl_data jval))"
       "fs' (path_join JSON_DIR (name @ ''_test.jsonl'')) = Some (JsonlFile (create_jsonl_data jtest))"
    by (rule process_file_Inr)
  note r = split_frame_rows[OF assms(1) s]
  have colsT: "columns ?T = ?cols" and rowsT: "rows ?T = zip [0 ..< length body] body"
    by (simp_all add: load_table_def)
  let ?all = "rows train @ rows val @ rows test"
  have ms: "mset ?all = mset (zip [0 ..< length body] body)" using r(1) rowsT by simp
  then have st: "set ?all = set (zip [0 ..< length body] body)" by (metis set_mset_mset)
  have rect: "length (snd row) = length ?cols" if "row \<in> set ?all" for row
  proof -
    from that st have "row \<in> set (zip [0 ..< length body] body)" by blast
    then have "snd row \<in> set body" by (metis prod.collapse set_zip_rightD)
    with assms(2) show ?thesis by (simp add: list_all_iff)
  qed
  have c: "columns train = ?cols" "columns val = ?cols" "columns test = ?cols"
    using r(2,3,4) colsT by simp_all
  have rec_train: "map map_of (create_jsonl_data jtrain) = map (expected_record ?cols) (rows train)"
    using to_json_index_records[OF j(1)] assms(3) rect c(1) by simp
  have rec_val: "map map_of (create_jsonl_data jval) = map (expected_record ?cols) (rows val)"
    using to_json_index_records[OF j(2)] assms(3) rect c(2) by simp
  have rec_test: "map map_of (create_jsonl_data jtest) = map (expected_record ?cols) (rows test)"
    using to_json_index_records[OF j(3)] assms(3) rect c(3) by simp
  let ?L = "create_jsonl_data jtrain @ create_jsonl_data jval @ create_jsonl_data jtest"
  have ids: "map id_of ?L = map (\<lambda>row. Some (JStr (str_nat (fst row)))) ?all"
    using ids_of_records[OF rec_train] ids_of_records[OF rec_val] ids_of_records[OF rec_test]
    by simp
  have "mset (map fst ?all) = mset (map fst (zip [0 ..< length body] body))"
    using ms by (metis mset_map)
  then have labels: "mset (map fst ?all) = mset [0 ..< length body]" by simp
  then have dl: "distinct (map fst ?all)" by (metis distinct_upt mset_eq_imp_distinct_iff)
  have sl: "set (map fst ?all) = {0 ..< length body}"
    using labels by (metis set_mset_mset set_upt)
  have ids': "map id_of ?L = map (\<lambda>i. Some (JStr (str_nat i))) (map fst ?all)"
    unfolding ids by (simp only: map_map comp_def)
  have "inj_on (\<lambda>i. Some (JStr (str_nat i))) (set (map fst ?all))"
    by (rule inj_onI) (simp add: str_nat_inj)
  with dl have dist: "distinct (map id_of ?L)"
    unfolding ids' by (simp only: distinct_map simp_thms)
  have "set (map id_of ?L) = (\<lambda>i. Some (JStr (str_nat i))) ` set (map fst ?all)"
    unfolding ids' by (simp only: set_map)
  then have un: "set (map id_of ?L) = (\<lambda>i. Some (JStr (str_nat i))) ` {0 ..< length body}"
    by (simp only: sl)
  from s f rec_train rec_val rec_test st ids dist un show ?thesis by blast
qed

theorem jsonl_ids_witness:
  "lib_ok example_lib
   \<and> list_all (\<lambda>cells. length cells = length [''Filename'', ''Label''])
        [[JStr ''a.png'', JInt 0], [JStr ''b.png'', JInt 1], [JStr ''c.png'', JInt 0]]
   \<and> ''id'' \<notin> set (map rename_column [''Filename'', ''Label''])
   \<and> (\<exists>fs' g'. process_file example_lib 0 Map.empty
          (''f'', load_table [''Filename'', ''Label'']
             [[JStr ''a.png'', JInt 0], [JStr ''b.png'', JInt 1], [JStr ''c.png'', JInt 0]])
          = Inr (fs', g')
        \<and> (\<exists>ltrain lval ltest.
              fs' (path_join JSON_DIR (''f'' @ ''_train.jsonl'')) = Some (JsonlFile ltrain)
            \<and> fs' (path_join JSON_DIR (''f'' @ ''_val.jsonl'')) = Some (JsonlFile lval)
            \<and> fs' (path_join JSON_DIR (''f'' @ ''_test.jsonl'')) = Some (JsonlFile ltest)
            \<and> distinct (map id_of (ltrain @ lval @ ltest))
            \<and> set (map id_of (ltrain @ lval @ ltest))
                = {Some (JStr ''0''), Some (JStr ''1''), Some (JStr ''2'')}))"
proof -
  let ?H = "[''Filename'', ''Label'']"
  let ?B = "[[JStr ''a.png'', JInt 0], [JStr ''b.png'', JInt 1], [JStr ''c.png'', JInt 0]]"
  have ok: "lib_ok example_lib" by (simp add: lib_ok_def example_lib_def)
  have rect: "list_all (\<lambda>cells. length cells = length ?H) ?B" by simp
  have noid: "''id'' \<notin> set (map rename_column ?H)" by (simp add: rename_column_def)
  have s: "split_frame example_lib 0 (load_table ?H ?B)
      = Inr ((\<lparr>columns = [''img'', ''label''], rows = [(1, [JStr ''b.png'', JInt 1])]\<rparr>,
              \<lparr>columns = [''img'', ''label''], rows = [(0, [JStr ''a.png'', JInt 0])]\<rparr>,
              \<lparr>columns = [''img'', ''label''], rows = [(2, [JStr ''c.png'', JInt 0])]\<rparr>), 0)"
    by code_simp
  have "\<exists>r. process_file example_lib 0 Map.empty (''f'', load_table ?H ?B) = Inr r"
    by (simp add: process_file_def s to_json_index_def Let_def)
  then obtain fs' g' where
    run: "process_file example_lib 0 Map.empty (''f'', load_table ?H ?B) = Inr (fs', g')"
    by auto
  have img: "(\<lambda>i. Some (JStr (str_nat i))) ` {0 ..< length ?B}
      = {Some (JStr ''0''), Some (JStr ''1''), Some (JStr ''2'')}"
  proof -
    have "{0 ..< length ?B} = {0, 1, 2}" by auto
    moreover have "str_nat 0 = ''0''" "str_nat 1 = ''1''" "str_nat 2 = ''2''" by code_simp+
    ultimately show ?thesis by simp
  qed
  from jsonl_ids [OF ok rect noid run] obtain train val test ltrain lval ltest where
    f: "fs' (path_join JSON_DIR (''f'' @ ''_train.jsonl'')) = Some (JsonlFile ltrain)"
       "fs' (path_join JSON_DIR (''f'' @ ''_val.jsonl'')) = Some (JsonlFile lval)"
       "fs' (path_join JSON_DIR (''f'' @ ''_test.jsonl'')) = Some (JsonlFile ltest)" and
    d: "distinct (map id_of (ltrain @ lval @ ltest))" and
    u: "set (map id_of (ltrain @ lval @ ltest)) = (\<lambda>i. Some (JStr (str_nat i))) ` {0 ..< length ?B}"
    by (elim exE conjE)
  from u img have u': "set (map id_of (ltrain @ lval @ ltest))
      = {Some (JStr ''0''), Some (JStr ''1''), Some (JStr ''2'')}" by (simp only:)
  have inner: "\<exists>ltrain lval ltest.
              fs' (path_join JSON_DIR (''f'' @ ''_train.jsonl'')) = Some (JsonlFile ltrain)
            \<and> fs' (path_join JSON_DIR (''f'' @ ''_val.jsonl'')) = Some (JsonlFile lval)
            \<and> fs' (path_join JSON_DIR (''f'' @ ''_test.jsonl'')) = Some (JsonlFile ltest)
            \<and> distinct (map id_of (ltrain @ lval @ ltest))
            \<and> set (map id_of (ltrain @ lval @ ltest))
                = {Some (JStr ''0''), Some (JStr ''1''), Some (JStr ''2'')}"
    by (intro exI conjI) (rule f d u')+
  have outer: "\<exists>fs' g'. process_file example_lib 0 Map.empty (''f'', load_table ?H ?B) = Inr (fs', g')
        \<and> (\<exists>ltrain lval ltest.
              fs' (path_join JSON_DIR (''f'' @ ''_train.jsonl'')) = Some (JsonlFile ltrain)
            \<and> fs' (path_join JSON_DIR (''f'' @ ''_val.jsonl'')) = Some (JsonlFile lval)
            \<and> fs' (path_join JSON_DIR (''f'' @ ''_test.jsonl'')) = Some (JsonlFile ltest)
            \<and> distinct (map id_of (ltrain @ lval @ ltest))
            \<and> set (map id_of (ltrain @ lval @ ltest))
                = {Some (JStr ''0''), Some (JStr ''1''), Some (JStr ''2'')})"
    by (rule exI, rule exI, rule conjI, rule run, rule inner)
  show ?thesis
    by (rule conjI, rule ok, rule conjI, rule rect, rule conjI, rule noid, rule outer)
qed

section \<open>Properties of the checkpoint section\<close>

lemma DenseNet121_init_Inr:
  assumes "DenseNet121_init pretrained init out_size = Inr model_ft"
  obtains num_ftrs wt bs where
    "densenet121 model_ft = pretrained\<lparr>classifier := Sequential [Linear num_ftrs out_size wt bs, Sigmoid]\<rparr>"
  using assms unfolding DenseNet121_init_def by (auto split: sum.splits)

lemma out_dirname: "dirname (path_join SAVED_MODELS_DIR ''saved_chexnet.pt'') = SAVED_MODELS_DIR"
  by code_simp

lemma str_nat_0: "str_nat 0 = ''0''"
  by code_simp

lemma keys_with_prefix: "keys (with_prefix p xs) = map (\<lambda>k. p @ k) (keys xs)"
  by (simp add: with_prefix_def keys_def case_prod_beta)

lemma with_prefix_append: "with_prefix p (xs @ ys) = with_prefix p xs @ with_prefix p ys"
  by (simp add: with_prefix_def)

lemma with_prefix_twice: "with_prefix p (with_prefix q xs) = with_prefix (p @ q) xs"
  by (simp add: with_prefix_def case_prod_beta)

lemma with_prefix_map_value:
  "with_prefix p (map (\<lambda>(k, v). (k, g (p @ k) v)) xs) = map (\<lambda>(k, v). (k, g k v)) (with_prefix p xs)"
  by (simp add: with_prefix_def case_prod_beta)

text \<open>The state of a model after loading: every tensor replaced by the one picked by name.\<close>

lemma head_state:
  "module_state (Sequential [Linear n k wt bs, Sigmoid]) = [(''0.weight'', wt), (''0.bias'', bs)]"
  by (simp add: str_nat_0 with_prefix_def)

lemma chexnet_state_head:
  assumes "classifier (densenet121 model) = Sequential [Linear n k wt bs, Sigmoid]"
  shows "chexnet_state model
      = with_prefix ''densenet121.features.'' (features (densenet121 model))
        @ [(''densenet121.classifier.0.weight'', wt), (''densenet121.classifier.0.bias'', bs)]"
  unfolding chexnet_state_def densenet_state_def assms head_state with_prefix_append with_prefix_twice
  by (simp add: with_prefix_def)

lemma map_of_map_value:
  "map_of (map (\<lambda>(k, v). (k, g k v)) xs) k = map_option (g k) (map_of xs k)"
  by (induction xs) auto


lemma load_state_dict_Inr:
  assumes l: "load_state_dict shape fill model state_dict metadata = Inr model'"
    and c: "classifier (densenet121 model) = Sequential [Linear n k wt bs, Sigmoid]"
  obtains wt' bs' where
    "classifier (densenet121 model') = Sequential [Linear n k wt' bs', Sigmoid]"
    "keys (features (densenet121 model')) = keys (features (densenet121 model))"
    "map_of (chexnet_state model')
       = map_of (fill_missing fill (chexnet_state model) metadata state_dict)"
proof -
  define eff where "eff = fill_missing fill (chexnet_state model) metadata state_dict"
  define f where "f = map_of eff"
  let ?feats = "features (densenet121 model)"
  let ?feats' = "map (\<lambda>(k, v). (k, pick f (''densenet121.features.'' @ k) v)) ?feats"
  from l have same_keys: "set (keys eff) = set (keys (chexnet_state model))"
    and m': "model' = \<lparr>densenet121 =
        \<lparr>features = ?feats',
         classifier = load_module f ''densenet121.classifier.'' (classifier (densenet121 model))\<rparr>\<rparr>"
    unfolding load_state_dict_def Let_def eff_def f_def by (simp_all split: if_splits)
  have cls: "classifier (densenet121 model')
      = Sequential [Linear n k (pick f ''densenet121.classifier.0.weight'' wt)
                              (pick f ''densenet121.classifier.0.bias'' bs), Sigmoid]"
    unfolding m' by (simp add: c str_nat_0)
  have fk: "keys (features (densenet121 model')) = keys ?feats"
    unfolding m' keys_def by (simp add: case_prod_beta comp_def)
  have feats': "features (densenet121 model') = ?feats'" unfolding m' by simp
  have "chexnet_state model'
      = with_prefix ''densenet121.features.'' ?feats'
        @ [(''densenet121.classifier.0.weight'', pick f ''densenet121.classifier.0.weight'' wt),
           (''densenet121.classifier.0.bias'', pick f ''densenet121.classifier.0.bias'' bs)]"
    unfolding chexnet_state_head[OF cls] feats' ..
  also have "with_prefix ''densenet121.features.'' ?feats'
      = map (\<lambda>(k, v). (k, pick f k v)) (with_prefix ''densenet121.features.'' ?feats)"
    by (rule with_prefix_map_value)
  finally have st: "chexnet_state model' = map (\<lambda>(k, v). (k, pick f k v)) (chexnet_state model)"
    unfolding chexnet_state_head[OF c] by simp
  have "map_of (chexnet_state model') x = f x" for x
  proof (cases "map_of (chexnet_state model) x")
    case None
    then have "x \<notin> set (keys (chexnet_state model))" by (simp add: keys_def map_of_eq_None_iff)
    with same_keys have "x \<notin> set (keys eff)" by simp
    then have "f x = None" by (simp add: f_def keys_def map_of_eq_None_iff)
    with None show ?thesis by (simp add: st map_of_map_value)
  next
    case (Some v)
    then have "x \<in> set (keys (chexnet_state model))"
      by (metis keys_def map_of_eq_None_iff option.distinct(1) set_map)
    with same_keys have "x \<in> set (keys eff)" by simp
    then obtain t where "f x = Some t"
      by (metis f_def keys_def map_of_eq_None_iff not_Some_eq set_map)
    with Some show ?thesis by (simp add: st map_of_map_value pick_def)
  qed
  then have "map_of (chexnet_state model') = f" ..
  with cls fk that show thesis unfolding f_def eff_def by blast
qed

lemma adapt_model_no_file:
  "files w CKPT_PATH = None \<Longrightarrow>
     adapt_model shape fill model_ft w = Inr (model_ft, py_print w ''=> no checkpoint found'')"
  by (simp add: adapt_model_def isfile_def)

lemma adapt_model_loaded:
  assumes "files w CKPT_PATH = Some (Checkpoint (Some (state_dict, metadata)))"
    and "adapt_model shape fill model_ft w = Inr (model_ft', w')"
  obtains remapped where "remap state_dict = Inr remapped"
    "load_state_dict shape fill model_ft remapped metadata = Inr model_ft'"
    "w' = py_print (py_print w ''=> loading checkpoint'') ''=> loaded checkpoint''"
  using assms unfolding adapt_model_def Let_def
  by (auto simp: isfile_def load_checkpoint_def py_print_def split: sum.splits)

lemma adapt_model_Inr:
  assumes "adapt_model shape fill model_ft w = Inr (model_ft', w')"
    and "classifier (densenet121 model_ft) = Sequential [Linear num_ftrs out_size wt bs, Sigmoid]"
  obtains wt' bs' where
    "classifier (densenet121 model_ft') = Sequential [Linear num_ftrs out_size wt' bs', Sigmoid]"
    "keys (features (densenet121 model_ft')) = keys (features (densenet121 model_ft))"
    "files w' = files w" "dirs w' = dirs w"
proof (cases "isfile w CKPT_PATH")
  case False
  with assms(1) have "model_ft' = model_ft" "w' = py_print w ''=> no checkpoint found''"
    by (simp_all add: adapt_model_def)
  with assms(2) that show thesis by (simp add: py_print_def)
next
  case True
  with assms(1) obtain sd meta where
    l: "load_state_dict shape fill model_ft sd meta = Inr model_ft'" and
    w': "w' = py_print (py_print w ''=> loading checkpoint'') ''=> loaded checkpoint''"
    unfolding adapt_model_def Let_def by (auto split: sum.splits)
  from load_state_dict_Inr[OF l assms(2)] w' that show thesis by (auto simp: py_print_def)
qed

lemma torch_save_Inr:
  assumes "torch_save w obj path = Inr w'"
  shows "w' = w\<lparr>files := (files w)(path \<mapsto> SavedModule obj)\<rparr>"
  using assms by (simp add: torch_save_def split: if_splits)

lemma chexnet_section_Inr:
  assumes "chexnet_section shape fill pretrained init w = Inr w'"
  obtains model_ft model_ft' w1 where
    "DenseNet121_init pretrained init N_CLASSES = Inr model_ft"
    "adapt_model shape fill model_ft w = Inr (model_ft', w1)"
    "files w' (path_join SAVED_MODELS_DIR ''saved_chexnet.pt'') = Some (SavedModule (densenet121 model_ft'))"
proof -
  from assms obtain model_ft model_ft' w1 w2 where
    i: "DenseNet121_init pretrained init N_CLASSES = Inr model_ft" and
    a: "adapt_model shape fill model_ft w = Inr (model_ft', w1)" and
    t: "torch_save w1 (densenet121 model_ft') (path_join SAVED_MODELS_DIR ''saved_chexnet.pt'') = Inr w2" and
    w': "w' = py_print w2 ''Model saved.''"
    unfolding chexnet_section_def by (auto split: sum.splits)
  from torch_save_Inr[OF t] w'
  have "files w' (path_join SAVED_MODELS_DIR ''saved_chexnet.pt'') = Some (SavedModule (densenet121 model_ft'))"
    by (simp add: py_print_def)
  with i a that show thesis by blast
qed

lemma torch_save_models:
  "SAVED_MODELS_DIR \<in> dirs w \<Longrightarrow>
     torch_save w obj (path_join SAVED_MODELS_DIR ''saved_chexnet.pt'')
       = Inr (w\<lparr>files := (files w)(path_join SAVED_MODELS_DIR ''saved_chexnet.pt'' \<mapsto> SavedModule obj)\<rparr>)"
  by (simp add: torch_save_def out_dirname)

text \<open>
  C5, as stated, fails. What \<open>torch.save\<close> receives is \<open>model_ft.densenet121\<close>, and the
  two-stage head was assigned to \<open>model_ft.densenet121.classifier\<close>: the head is a child of
  the module that is saved. On the example model the file holds the feature parameters
  and the head \<open>Sequential [Linear 1024 14, Sigmoid]\<close>, with the names
  \<open>classifier.0.weight\<close> and \<open>classifier.0.bias\<close> in its state, without a checkpoint and
  with one.
\<close>

theorem saved_module_counterexample:
  "saved_artifact (chexnet_section example_shape example_fill example_pretrained example_init
       \<lparr>files = Map.empty, dirs = {''models''}, stdout = []\<rparr>)
     = Some (SavedModule
         \<lparr>features = [(''conv0.weight'', 7),
                      (''denseblock1.denselayer1.norm1.weight'', 8),
                      (''denseblock1.denselayer1.norm1.num_batches_tracked'', 9)],
          classifier = Sequential [Linear 1024 14 4 5, Sigmoid]\<rparr>)
   \<and> keys (densenet_state
         \<lparr>features = [(''conv0.weight'', 7::nat),
                      (''denseblock1.denselayer1.norm1.weight'', 8),
                      (''denseblock1.denselayer1.norm1.num_batches_tracked'', 9)],
          classifier = Sequential [Linear 1024 14 4 5, Sigmoid]\<rparr>)
     = [''features.conv0.weight'', ''features.denseblock1.denselayer1.norm1.weight'',
        ''features.denseblock1.denselayer1.norm1.num_batches_tracked'',
        ''classifier.0.weight'', ''classifier.0.bias'']
   \<and> saved_artifact (chexnet_section example_shape example_fill example_pretrained example_init
       \<lparr>files = [CKPT_PATH \<mapsto> example_checkpoint], dirs = {''models''}, stdout = []\<rparr>)
     = Some (SavedModule
         \<lparr>features = [(''conv0.weight'', 10),
                      (''denseblock1.denselayer1.norm1.weight'', 13),
                      (''denseblock1.denselayer1.norm1.num_batches_tracked'', 0)],
          classifier = Sequential [Linear 1024 14 11 12, Sigmoid]\<rparr>)"
  by code_simp

text \<open>
  C5, amended. Whenever the section completes, the output path holds the module
  \<open>model_ft.densenet121\<close> as it is after the \<open>if\<close>: the feature extractor of the backbone
  together with the replaced two-stage classification head, a linear projection to
  \<open>N_CLASSES\<close> outputs followed by a sigmoid. Only the outer \<open>DenseNet121\<close> wrapper is left
  out. Without a checkpoint file it is the module of the model as constructed; with a
  checkpoint its tensors are, name for name, those of the remapped state dictionary, with
  the batch-norm counters the old checkpoint lacks filled in.
\<close>

theorem saved_module_has_head:
  assumes "chexnet_section shape fill pretrained init w = Inr w'"
  shows "\<exists>model_ft d num_ftrs wt bs.
       DenseNet121_init pretrained init N_CLASSES = Inr model_ft
     \<and> files w' (path_join SAVED_MODELS_DIR ''saved_chexnet.pt'') = Some (SavedModule d)
     \<and> classifier d = Sequential [Linear num_ftrs N_CLASSES wt bs, Sigmoid]
     \<and> keys (densenet_state d)
         = map (\<lambda>k. ''features.'' @ k) (keys (features pretrained))
           @ [''classifier.0.weight'', ''classifier.0.bias'']
     \<and> (files w CKPT_PATH = None \<longrightarrow> d = densenet121 model_ft)
     \<and> (\<forall>state_dict metadata remapped.
            files w CKPT_PATH = Some (Checkpoint (Some (state_dict, metadata)))
            \<and> remap state_dict = Inr remapped
          \<longrightarrow> map_of (chexnet_state \<lparr>densenet121 = d\<rparr>)
              = map_of (fill_missing fill (chexnet_state model_ft) metadata remapped))"
proof -
  from assms obtain model_ft model_ft' w1 where
    i: "DenseNet121_init pretrained init N_CLASSES = Inr model_ft" and
    a: "adapt_model shape fill model_ft w = Inr (model_ft', w1)" and
    f: "files w' (path_join SAVED_MODELS_DIR ''saved_chexnet.pt'') = Some (SavedModule (densenet121 model_ft'))"
    by (rule chexnet_section_Inr)
  from i obtain num_ftrs wt bs where
    m: "densenet121 model_ft = pretrained\<lparr>classifier := Sequential [Linear num_ftrs N_CLASSES wt bs, Sigmoid]\<rparr>"
    by (rule DenseNet121_init_Inr)
  then have c: "classifier (densenet121 model_ft) = Sequential [Linear num_ftrs N_CLASSES wt bs, Sigmoid]"
    and fk: "features (densenet121 model_ft) = features pretrained" by simp_all
  from adapt_model_Inr[OF a c] obtain wt' bs' where
    c': "classifier (densenet121 model_ft') = Sequential [Linear num_ftrs N_CLASSES wt' bs', Sigmoid]" and
    k': "keys (features (densenet121 model_ft')) = keys (features (densenet121 model_ft))"
    by blast
  let ?d = "densenet121 model_ft'"
  have k: "keys (features ?d) = keys (features pretrained)" using k' fk by simp
  have km: "keys (module_state (classifier ?d)) = [''0.weight'', ''0.bias'']"
    unfolding c' head_state by (simp add: keys_def)
  have "keys (densenet_state ?d)
      = map (\<lambda>k. ''features.'' @ k) (keys (features ?d))
        @ map (\<lambda>k. ''classifier.'' @ k) (keys (module_state (classifier ?d)))"
    by (simp only: densenet_state_def keys_simps(3) keys_with_prefix)
  then have s: "keys (densenet_state ?d)
      = map (\<lambda>k. ''features.'' @ k) (keys (features pretrained))
        @ [''classifier.0.weight'', ''classifier.0.bias'']"
    by (simp only: km k) simp
  have none: "?d = densenet121 model_ft" if "files w CKPT_PATH = None"
    using a adapt_model_no_file[OF that, of shape fill model_ft] by simp
  have loaded: "map_of (chexnet_state \<lparr>densenet121 = ?d\<rparr>)
      = map_of (fill_missing fill (chexnet_state model_ft) metadata remapped)"
    if h: "files w CKPT_PATH = Some (Checkpoint (Some (state_dict, metadata)))
           \<and> remap state_dict = Inr remapped" for state_dict metadata remapped
  proof -
    from h have h1: "files w CKPT_PATH = Some (Checkpoint (Some (state_dict, metadata)))"
      and h2: "remap state_dict = Inr remapped" by simp_all
    from adapt_model_loaded[OF h1 a] obtain remapped' where
      r: "remap state_dict = Inr remapped'" and
      l: "load_state_dict shape fill model_ft remapped' metadata = Inr model_ft'" by blast
    from r h2 have "remapped' = remapped" by simp
    with l have l': "load_state_dict shape fill model_ft remapped metadata = Inr model_ft'" by simp
    from load_state_dict_Inr[OF l' c]
    have "map_of (chexnet_state model_ft')
        = map_of (fill_missing fill (chexnet_state model_ft) metadata remapped)" by blast
    moreover have "chexnet_state \<lparr>densenet121 = ?d\<rparr> = chexnet_state model_ft'"
      by (simp add: chexnet_state_def)
    ultimately show ?thesis by simp
  qed
  show ?thesis
  proof (intro exI conjI allI impI)
    show "DenseNet121_init pretrained init N_CLASSES = Inr model_ft" by (rule i)
    show "files w' (path_join SAVED_MODELS_DIR ''saved_chexnet.pt'') = Some (SavedModule ?d)"
      by (rule f)
    show "classifier ?d = Sequential [Linear num_ftrs N_CLASSES wt' bs', Sigmoid]" by (rule c')
    show "keys (densenet_state ?d)
         = map (\<lambda>k. ''features.'' @ k) (keys (features pretrained))
           @ [''classifier.0.weight'', ''classifier.0.bias'']" by (rule s)
    show "?d = densenet121 model_ft" if "files w CKPT_PATH = None" using that by (rule none)
    show "map_of (chexnet_state \<lparr>densenet121 = ?d\<rparr>)
      = map_of (fill_missing fill (chexnet_state model_ft) metadata remapped)"
      if "files w CKPT_PATH = Some (Checkpoint (Some (state_dict, metadata)))
           \<and> remap state_dict = Inr remapped" for state_dict metadata remapped
      using that by (rule loaded)
  qed
qed

theorem saved_module_has_head_witness:
  "\<exists>w'. chexnet_section example_shape example_fill example_pretrained example_init
          \<lparr>files = [CKPT_PATH \<mapsto> example_checkpoint], dirs = {''models''}, stdout = []\<rparr> = Inr w'
      \<and> (\<exists>d. files w' (path_join SAVED_MODELS_DIR ''saved_chexnet.pt'') = Some (SavedModule d)
            \<and> map_of (chexnet_state \<lparr>densenet121 = d\<rparr>) ''densenet121.classifier.0.weight''
                = Some 11
            \<and> map_of (chexnet_state \<lparr>densenet121 = d\<rparr>)
                  ''densenet121.features.denseblock1.denselayer1.norm1.weight'' = Some 13
            \<and> map_of (chexnet_state \<lparr>densenet121 = d\<rparr>)
                  ''densenet121.features.denseblock1.denselayer1.norm1.num_batches_tracked''
                = Some 0)"
proof -
  let ?W = "\<lparr>files = [CKPT_PATH \<mapsto> example_checkpoint], dirs = {''models''}, stdout = []\<rparr>"
  let ?SD = "[(''module.densenet121.features.conv0.weight'', 10::nat),
              (''module.densenet121.features.denseblock1.denselayer1.norm.1.weight'', 13),
              (''module.densenet121.classifier.0.weight'', 11),
              (''module.densenet121.classifier.0.bias'', 12)]"
  let ?R = "[(''densenet121.features.conv0.weight'', 10::nat),
             (''densenet121.features.denseblock1.denselayer1.norm1.weight'', 13),
             (''densenet121.classifier.0.weight'', 11),
             (''densenet121.classifier.0.bias'', 12)]"
  let ?M = "\<lparr>densenet121 =
              \<lparr>features = [(''conv0.weight'', 7::nat),
                           (''denseblock1.denselayer1.norm1.weight'', 8),
                           (''denseblock1.denselayer1.norm1.num_batches_tracked'', 9)],
               classifier = Sequential [Linear 1024 14 4 5, Sigmoid]\<rparr>\<rparr>"
  let ?M' = "\<lparr>densenet121 =
              \<lparr>features = [(''conv0.weight'', 10::nat),
                           (''denseblock1.denselayer1.norm1.weight'', 13),
                           (''denseblock1.denselayer1.norm1.num_batches_tracked'', 0)],
               classifier = Sequential [Linear 1024 14 11 12, Sigmoid]\<rparr>\<rparr>"
  have i: "DenseNet121_init example_pretrained example_init N_CLASSES = Inr ?M" by code_simp
  have r: "remap ?SD = Inr ?R" by code_simp
  have l: "load_state_dict example_shape example_fill ?M ?R [] = Inr ?M'" by code_simp
  have c: "files ?W CKPT_PATH = Some (Checkpoint (Some (?SD, [])))"
    by (simp add: example_checkpoint_def)
  have a: "adapt_model example_shape example_fill ?M ?W
      = Inr (?M', py_print (py_print ?W ''=> loading checkpoint'') ''=> loaded checkpoint'')"
    unfolding adapt_model_def isfile_def load_checkpoint_def Let_def py_print_def
    by (simp add: example_checkpoint_def r l)
  have "SAVED_MODELS_DIR \<in> dirs (py_print (py_print ?W ''=> loading checkpoint'') ''=> loaded checkpoint'')"
    by (simp add: py_print_def SAVED_MODELS_DIR_def)
  note t = torch_save_models[OF this, of "densenet121 ?M'"]
  have "\<exists>w'. chexnet_section example_shape example_fill example_pretrained example_init ?W = Inr w'"
    unfolding chexnet_section_def i sum.case a prod.case t by simp
  then obtain w' where
    run: "chexnet_section example_shape example_fill example_pretrained example_init ?W = Inr w'" ..
  from saved_module_has_head [OF run] obtain model_ft d where
    m: "DenseNet121_init example_pretrained example_init N_CLASSES = Inr model_ft" and
    f: "files w' (path_join SAVED_MODELS_DIR ''saved_chexnet.pt'') = Some (SavedModule d)" and
    every: "\<forall>state_dict metadata remapped.
            files ?W CKPT_PATH = Some (Checkpoint (Some (state_dict, metadata)))
            \<and> remap state_dict = Inr remapped
          \<longrightarrow> map_of (chexnet_state \<lparr>densenet121 = d\<rparr>)
              = map_of (fill_missing example_fill (chexnet_state model_ft) metadata remapped)"
    by (elim exE conjE)
  from m i have mm: "model_ft = ?M" by simp
  from c r have "files ?W CKPT_PATH = Some (Checkpoint (Some (?SD, []))) \<and> remap ?SD = Inr ?R" ..
  from every [rule_format, OF this]
  have st: "map_of (chexnet_state \<lparr>densenet121 = d\<rparr>)
      = map_of (fill_missing example_fill (chexnet_state ?M) [] ?R)" unfolding mm .
  have v1: "map_of (fill_missing example_fill (chexnet_state ?M) [] ?R)
      ''densenet121.classifier.0.weight'' = Some 11" by code_simp
  have v2: "map_of (fill_missing example_fill (chexnet_state ?M) [] ?R)
      ''densenet121.features.denseblock1.denselayer1.norm1.weight'' = Some 13" by code_simp
  have v3: "map_of (fill_missing example_fill (chexnet_state ?M) [] ?R)
      ''densenet121.features.denseblock1.denselayer1.norm1.num_batches_tracked'' = Some 0"
    by code_simp
  have inner: "\<exists>d. files w' (path_join SAVED_MODELS_DIR ''saved_chexnet.pt'') = Some (SavedModule d)
            \<and> map_of (chexnet_state \<lparr>densenet121 = d\<rparr>) ''densenet121.classifier.0.weight''
                = Some 11
            \<and> map_of (chexnet_state \<lparr>densenet121 = d\<rparr>)
                  ''densenet121.features.denseblock1.denselayer1.norm1.weight'' = Some 13
            \<and> map_of (chexnet_state \<lparr>densenet121 = d\<rparr>)
                  ''densenet121.features.denseblock1.denselayer1.norm1.num_batches_tracked''
                = Some 0"
    using f v1 v2 v3 unfolding st[symmetric] by (intro exI conjI)
  show ?thesis by (rule exI, rule conjI, rule run, rule inner)
qed

text \<open>
  C6, as stated, fails when the directory \<open>models\<close> does not exist, which is one way for
  no file to exist at the checkpoint path: the script creates no directory, \<open>torch.save\<close>
  raises, and no output file is written.
\<close>

theorem no_checkpoint_counterexample:
  "files \<lparr>files = Map.empty, dirs = {}, stdout = []\<rparr> CKPT_PATH = (None :: nat torch_file option)
   \<and> map_sum id stdout (chexnet_section example_shape example_fill example_pretrained example_init
         \<lparr>files = Map.empty, dirs = {}, stdout = []\<rparr>)
       = Inl RuntimeError
   \<and> saved_artifact (chexnet_section example_shape example_fill example_pretrained example_init
         \<lparr>files = Map.empty, dirs = {}, stdout = []\<rparr>)
       = None"
  by code_simp

text \<open>
  C6, amended. When nothing is stored at the checkpoint path, the model is handed on
  untouched (no load, no remapping, no load into the model) and the message
  \<open>=> no checkpoint found\<close> is printed. If the directory \<open>models\<close> exists, the section then
  completes: the output path holds \<open>densenet121\<close> of the model as constructed, and
  \<open>Model saved.\<close> is printed. If the directory does not exist, the save raises and the
  section fails without an output file.
\<close>

theorem no_checkpoint:
  assumes "files w CKPT_PATH = None"
    and "DenseNet121_init pretrained init N_CLASSES = Inr model_ft"
  shows "adapt_model shape fill model_ft w = Inr (model_ft, py_print w ''=> no checkpoint found'')
     \<and> (SAVED_MODELS_DIR \<in> dirs w \<longrightarrow>
          chexnet_section shape fill pretrained init w
            = Inr (w\<lparr>files := (files w)(path_join SAVED_MODELS_DIR ''saved_chexnet.pt''
                                        \<mapsto> SavedModule (densenet121 model_ft)),
                     stdout := stdout w @ [''=> no checkpoint found'', ''Model saved.'']\<rparr>))
     \<and> (SAVED_MODELS_DIR \<notin> dirs w \<longrightarrow>
          chexnet_section shape fill pretrained init w = Inl RuntimeError)"
proof -
  have ne: "SAVED_MODELS_DIR \<noteq> []" by (simp add: SAVED_MODELS_DIR_def)
  show ?thesis
    using assms ne
    by (simp add: chexnet_section_def adapt_model_no_file py_print_def torch_save_def out_dirname)
qed

theorem no_checkpoint_witness:
  "files \<lparr>files = Map.empty, dirs = {''models''}, stdout = []\<rparr> CKPT_PATH
       = (None :: nat torch_file option)
   \<and> DenseNet121_init example_pretrained example_init N_CLASSES
       = Inr \<lparr>densenet121 =
               \<lparr>features = [(''conv0.weight'', 7),
                            (''denseblock1.denselayer1.norm1.weight'', 8),
                            (''denseblock1.denselayer1.norm1.num_batches_tracked'', 9)],
                classifier = Sequential [Linear 1024 14 4 5, Sigmoid]\<rparr>\<rparr>
   \<and> SAVED_MODELS_DIR \<in> dirs \<lparr>files = Map.empty :: string \<rightharpoonup> nat torch_file,
                                dirs = {''models''}, stdout = []\<rparr>
   \<and> saved_artifact (chexnet_section example_shape example_fill example_pretrained example_init
         \<lparr>files = Map.empty, dirs = {''models''}, stdout = []\<rparr>)
       = Some (SavedModule
           \<lparr>features = [(''conv0.weight'', 7),
                        (''denseblock1.denselayer1.norm1.weight'', 8),
                        (''denseblock1.denselayer1.norm1.num_batches_tracked'', 9)],
            classifier = Sequential [Linear 1024 14 4 5, Sigmoid]\<rparr>)
   \<and> map_sum id stdout (chexnet_section example_shape example_fill example_pretrained example_init
         \<lparr>files = Map.empty, dirs = {''models''}, stdout = []\<rparr>)
       = Inr [''=> no checkpoint found'', ''Model saved.'']"
proof -
  let ?W = "\<lparr>files = Map.empty, dirs = {''models''}, stdout = []\<rparr> :: nat world"
  have h: "files ?W CKPT_PATH = None" by simp
  have i: "DenseNet121_init example_pretrained example_init N_CLASSES
      = Inr \<lparr>densenet121 =
               \<lparr>features = [(''conv0.weight'', 7),
                            (''denseblock1.denselayer1.norm1.weight'', 8),
                            (''denseblock1.denselayer1.norm1.num_batches_tracked'', 9)],
                classifier = Sequential [Linear 1024 14 4 5, Sigmoid]\<rparr>\<rparr>"
    by code_simp
  have dir: "SAVED_MODELS_DIR \<in> dirs ?W" by (simp add: SAVED_MODELS_DIR_def)
  from no_checkpoint [OF h i, of example_shape example_fill] dir
  have run: "chexnet_section example_shape example_fill example_pretrained example_init ?W
      = Inr (?W\<lparr>files := (files ?W)(path_join SAVED_MODELS_DIR ''saved_chexnet.pt''
                    \<mapsto> SavedModule (densenet121 \<lparr>densenet121 =
               \<lparr>features = [(''conv0.weight'', 7),
                            (''denseblock1.denselayer1.norm1.weight'', 8),
                            (''denseblock1.denselayer1.norm1.num_batches_tracked'', 9)],
                classifier = Sequential [Linear 1024 14 4 5, Sigmoid]\<rparr>\<rparr>)),
               stdout := stdout ?W @ [''=> no checkpoint found'', ''Model saved.'']\<rparr>)"
    by blast
  show ?thesis using h i dir unfolding run by (simp add: saved_artifact_def)
qed

end
